theory Spec2Isabelle
  imports Complex_Main "HOL-Library.Word"
begin

unbundle bit_operations_syntax

section \<open>Go values used by the sniffer\<close>

type_synonym byte = "8 word"
type_synonym uint32 = "32 word"

text \<open>The two run-time panics the decoder can raise: an index expression \<open>s[i]\<close> outside
  \<open>0 \<le> i < len(s)\<close>, and a slice expression \<open>s[lo:hi]\<close> outside \<open>0 \<le> lo \<le> hi \<le> cap(s)\<close>.\<close>

datatype panic = IndexOutOfRange | SliceBoundsOutOfRange

text \<open>A Go slice is a view into a backing array: the array, the offset of the slice's
  first element, its length and its capacity.\<close>

record slice =
  sarr :: "byte list"
  soff :: nat
  slen :: nat
  scap :: nat

definition wf_slice :: "slice \<Rightarrow> bool" where
  "wf_slice s \<longleftrightarrow> slen s \<le> scap s \<and> soff s + scap s \<le> length (sarr s)"

text \<open>The bytes a slice shows: \<open>s[0], ..., s[len(s)-1]\<close>.\<close>

definition bytes_of :: "slice \<Rightarrow> byte list" where
  "bytes_of s = take (slen s) (drop (soff s) (sarr s))"

text \<open>\<open>make([]byte, k)\<close> and a slice holding exactly the given bytes.\<close>

definition slice_of :: "byte list \<Rightarrow> slice" where
  "slice_of bs = \<lparr>sarr = bs, soff = 0, slen = length bs, scap = length bs\<rparr>"

definition make_bytes :: "nat \<Rightarrow> slice" where
  "make_bytes k = slice_of (replicate k 0)"

text \<open>Sequencing of computations that may panic.\<close>

definition pbind :: "panic + 'a \<Rightarrow> ('a \<Rightarrow> panic + 'b) \<Rightarrow> panic + 'b" where
  "pbind m k = (case m of Inl e \<Rightarrow> Inl e | Inr x \<Rightarrow> k x)"

text \<open>The index expression \<open>s[i]\<close>.\<close>

definition index :: "slice \<Rightarrow> int \<Rightarrow> panic + byte" where
  "index s i = (if 0 \<le> i \<and> i < int (slen s) then Inr (sarr s ! (soff s + nat i))
             else Inl IndexOutOfRange)"

text \<open>The slice expression \<open>s[lo:hi]\<close>: it shares the backing array.\<close>

definition reslice :: "slice \<Rightarrow> int \<Rightarrow> int \<Rightarrow> panic + slice" where
  "reslice s lo hi =
     (if 0 \<le> lo \<and> lo \<le> hi \<and> hi \<le> int (scap s)
      then Inr \<lparr>sarr = sarr s, soff = soff s + nat lo, slen = nat (hi - lo),
                scap = scap s - nat lo\<rparr>
      else Inl SliceBoundsOutOfRange)"

section \<open>The frame decoder\<close>

record frame =
  Len :: int
  SysID :: byte
  CompID :: byte
  MsgID :: uint32
  Payload :: slice

definition headerLen :: int where "headerLen = 10"
definition crcLen :: int where "crcLen = 2"

text \<open>\<open>parseFrame(buf, n)\<close>: the Go result \<open>(frame{}, false)\<close> is \<open>None\<close>, the result
  \<open>(f, true)\<close> is \<open>Some f\<close>. The three rejections return the same value.\<close>

definition parseFrame :: "slice \<Rightarrow> int \<Rightarrow> panic + frame option" where
  "parseFrame buf n =
     (if n < headerLen + crcLen then Inr None
      else pbind (index buf 0) (\<lambda>b0.
        if b0 \<noteq> 0xFD then Inr None
        else pbind (index buf 1) (\<lambda>b1.
          let pl = uint b1; total = headerLen + pl + crcLen in
          if n < total then Inr None
          else pbind (index buf 5) (\<lambda>b5.
               pbind (index buf 6) (\<lambda>b6.
               pbind (index buf 7) (\<lambda>b7.
               pbind (index buf 8) (\<lambda>b8.
               pbind (index buf 9) (\<lambda>b9.
               pbind (reslice buf 10 (10 + pl)) (\<lambda>p.
                 Inr (Some \<lparr>Len = pl, SysID = b5, CompID = b6,
                            MsgID = ucast b7 OR push_bit 8 (ucast b8) OR push_bit 16 (ucast b9),
                            Payload = p\<rparr>))))))))))"

section \<open>The message decoders\<close>

record Heartbeat =
  Type :: byte
  Autopilot :: byte
  BaseMode :: byte
  CustomMode :: uint32
  SystemStatus :: byte

text \<open>\<open>binary.LittleEndian.Uint32(b)\<close> of the Go standard library: it reads \<open>b[3]\<close> first
  (the bounds check), then combines \<open>b[0..3]\<close>.\<close>

definition LittleEndian_Uint32 :: "slice \<Rightarrow> panic + uint32" where
  "LittleEndian_Uint32 b =
     pbind (index b 3) (\<lambda>_.
     pbind (index b 0) (\<lambda>b0.
     pbind (index b 1) (\<lambda>b1.
     pbind (index b 2) (\<lambda>b2.
     pbind (index b 3) (\<lambda>b3.
       Inr (ucast b0 OR push_bit 8 (ucast b1) OR push_bit 16 (ucast b2)
              OR push_bit 24 (ucast b3)))))))"

text \<open>\<open>tryHeartbeat(f)\<close>. The guard is the source's: it returns \<open>(Heartbeat{}, false)\<close> only
  when the message id is not 0 \<^emph>\<open>and\<close> the payload length is not 9.\<close>

definition tryHeartbeat :: "frame \<Rightarrow> panic + Heartbeat option" where
  "tryHeartbeat f =
     (if MsgID f \<noteq> 0 \<and> int (slen (Payload f)) \<noteq> 9 then Inr None
      else let p = Payload f in
        pbind (index p 4) (\<lambda>p4.
        pbind (index p 5) (\<lambda>p5.
        pbind (index p 6) (\<lambda>p6.
        pbind (reslice p 0 4) (\<lambda>q.
        pbind (LittleEndian_Uint32 q) (\<lambda>cm.
        pbind (index p 7) (\<lambda>p7.
          Inr (Some \<lparr>Type = p4, Autopilot = p5, BaseMode = p6, CustomMode = cm,
                     SystemStatus = p7\<rparr>))))))))"

subsection \<open>float64 division\<close>

text \<open>A finite \<open>float64\<close> is the rational number it denotes. \<open>float64(i)\<close> of an \<open>int32\<close> is
  exact. \<open>float64_div a b\<close> is the IEEE 754 binary64 quotient \<open>float64(a) / float64(b)\<close> of
  two integers below \<open>2^53\<close> in magnitude with \<open>b > 0\<close>, rounded to the nearest value with a
  53-bit significand, ties to even; the quotients of the decoder (an \<open>int32\<close> by \<open>1e7\<close> or by
  \<open>1000.0\<close>) are zero or lie in the normal range, so there is neither overflow nor
  underflow.\<close>

type_synonym float64 = rat

fun bit_length :: "nat \<Rightarrow> nat" where
  "bit_length n = (if n = 0 then 0 else Suc (bit_length (n div 2)))"

declare bit_length.simps [simp del]

definition pow2 :: "int \<Rightarrow> rat" where
  "pow2 k = (if 0 \<le> k then 2 ^ nat k else 1 / 2 ^ nat (- k))"

text \<open>\<open>p / q\<close> rounded to the nearest integer, ties to even, for \<open>q > 0\<close>.\<close>

definition roundHalfEven :: "int \<Rightarrow> int \<Rightarrow> int" where
  "roundHalfEven p q =
     (let f = p div q; r = p mod q in
      if 2 * r < q then f else if q < 2 * r then f + 1
      else if even f then f else f + 1)"

text \<open>\<open>e\<close> is the binary exponent of the quotient, \<open>2^e \<le> |a| / b < 2^(e+1)\<close>, and \<open>m\<close>
  its significand scaled to 53 bits and rounded.\<close>

definition float64_div :: "int \<Rightarrow> int \<Rightarrow> float64" where
  "float64_div a b =
     (if a = 0 then 0
      else let e0 = int (bit_length (nat \<bar>a\<bar>)) - int (bit_length (nat b));
               e = (if b * 2 ^ nat e0 \<le> \<bar>a\<bar> * 2 ^ nat (- e0) then e0 else e0 - 1);
               m = roundHalfEven (\<bar>a\<bar> * 2 ^ nat (52 - e)) (b * 2 ^ nat (e - 52))
           in of_int (sgn a * m) * pow2 (e - 52))"

text \<open>\<open>tryGlobalPosition(f)\<close>: the Go result \<open>(0, 0, 0, false)\<close> is \<open>None\<close>, the result
  \<open>(lat, lon, alt, true)\<close> is \<open>Some (lat, lon, alt)\<close>. \<open>int32(u)\<close> is \<open>sint u\<close>.\<close>

definition tryGlobalPosition :: "frame \<Rightarrow> panic + (float64 \<times> float64 \<times> float64) option" where
  "tryGlobalPosition f =
     (if MsgID f \<noteq> 33 \<or> int (slen (Payload f)) < 28 then Inr None
      else let p = Payload f in
        pbind (reslice p 4 8) (\<lambda>q1.
        pbind (LittleEndian_Uint32 q1) (\<lambda>latInt.
        pbind (reslice p 8 12) (\<lambda>q2.
        pbind (LittleEndian_Uint32 q2) (\<lambda>lonInt.
        pbind (reslice p 12 16) (\<lambda>q3.
        pbind (LittleEndian_Uint32 q3) (\<lambda>altMM.
          Inr (Some (float64_div (sint latInt) 10000000,
                     float64_div (sint lonInt) 10000000,
                     float64_div (sint altMM) 1000)))))))))"

subsection \<open>Dispatch\<close>

text \<open>What the read loop prints for a frame (\<open>main\<close>, the body of
  \<open>if f, ok := parseFrame(buf, n); ok\<close>): the fields of the JSON object.\<close>

datatype record_out =
  HEARTBEAT byte byte byte bool uint32 byte
  | GLOBAL_POSITION_INT float64 float64 float64

definition armed :: "Heartbeat \<Rightarrow> bool" where
  "armed hb \<longleftrightarrow> BaseMode hb AND 0x80 \<noteq> 0"

definition dispatch :: "frame \<Rightarrow> panic + record_out option" where
  "dispatch f =
     pbind (tryHeartbeat f) (\<lambda>r.
       case r of
         Some hb \<Rightarrow> Inr (Some (HEARTBEAT (Type hb) (Autopilot hb) (BaseMode hb) (armed hb)
                                  (CustomMode hb) (SystemStatus hb)))
       | None \<Rightarrow>
           pbind (tryGlobalPosition f) (\<lambda>g.
             case g of
               Some (lat, lon, alt) \<Rightarrow> Inr (Some (GLOBAL_POSITION_INT lat lon alt))
             | None \<Rightarrow> Inr None))"

section \<open>The read loop\<close>

text \<open>What \<open>conn.ReadFromUDP(buf)\<close> returns in one iteration: a datagram, a deadline
  expiry (a \<open>net.Error\<close> with \<open>Timeout()\<close>), or another error.\<close>

datatype recv = Received "byte list" | Timeout | OtherError

text \<open>A successful receive copies the datagram into \<open>buf\<close>, cut to \<open>len(buf)\<close>, and
  returns the number of bytes copied; the rest of \<open>buf\<close> keeps its old content.\<close>

definition ReadFromUDP :: "slice \<Rightarrow> byte list \<Rightarrow> slice \<times> int" where
  "ReadFromUDP buf d =
     (let d' = take (slen buf) d in
      (buf\<lparr>sarr := take (soff buf) (sarr buf) @ d' @ drop (soff buf + length d') (sarr buf)\<rparr>,
       int (length d')))"

text \<open>One iteration of the \<open>for\<close> loop. Its inputs are the result of the receive and
  whether \<open>ctx.Done()\<close> is closed when the \<open>select\<close> polls it. It continues (with the
  buffer and what it printed), returns, or the goroutine panics.\<close>

datatype step = Continue slice "record_out option" | Return | Crash panic

definition iteration :: "slice \<Rightarrow> recv \<times> bool \<Rightarrow> step" where
  "iteration buf ev =
     (case ev of
        (Timeout, cancelled) \<Rightarrow> if cancelled then Return else Continue buf None
      | (OtherError, cancelled) \<Rightarrow> if cancelled then Return else Continue buf None
      | (Received d, _) \<Rightarrow>
          (let (buf', n) = ReadFromUDP buf d in
           case parseFrame buf' n of
             Inl e \<Rightarrow> Crash e
           | Inr None \<Rightarrow> Continue buf' None
           | Inr (Some f) \<Rightarrow>
               (case dispatch f of
                  Inl e \<Rightarrow> Crash e
                | Inr out \<Rightarrow> Continue buf' out)))"

datatype loop_state = Running | Returned | Crashed panic

text \<open>The loop over the iterations the environment provides: the records printed and
  how the loop stands afterwards.\<close>

fun readLoop :: "slice \<Rightarrow> (recv \<times> bool) list \<Rightarrow> record_out list \<times> loop_state" where
  "readLoop buf [] = ([], Running)"
| "readLoop buf (ev # evs) =
     (case iteration buf ev of
        Return \<Rightarrow> ([], Returned)
      | Crash e \<Rightarrow> ([], Crashed e)
      | Continue buf' out \<Rightarrow>
          (let (outs, st) = readLoop buf' evs in
           ((case out of None \<Rightarrow> [] | Some r \<Rightarrow> [r]) @ outs, st)))"

section \<open>The earlier heartbeat-only decoder\<close>

text \<open>\<open>parseMAVLinkPacket(buf, n)\<close> of \<open>cmd/sniffer/main.go\<close>, with its three errors.\<close>

datatype packet_error = NotValidV2 | NotHeartbeat | PacketTooShort

definition parseMAVLinkPacket :: "slice \<Rightarrow> int \<Rightarrow> panic + (packet_error + Heartbeat)" where
  "parseMAVLinkPacket buf n =
     (if n < 10 then Inr (Inl NotValidV2)
      else pbind (index buf 0) (\<lambda>b0.
        if b0 \<noteq> 0xFD then Inr (Inl NotValidV2)
        else pbind (index buf 1) (\<lambda>b1.
             pbind (index buf 7) (\<lambda>b7.
             pbind (index buf 8) (\<lambda>b8.
             pbind (index buf 9) (\<lambda>b9.
               let payloadLen = uint b1;
                   msgID = (ucast b7 OR push_bit 8 (ucast b8) OR push_bit 16 (ucast b9) :: uint32)
               in
               if msgID \<noteq> 0 \<or> payloadLen \<noteq> 9 then Inr (Inl NotHeartbeat)
               else if n < 10 + 9 + 2 then Inr (Inl PacketTooShort)
               else pbind (reslice buf 10 (10 + 9)) (\<lambda>payload.
                    pbind (index payload 4) (\<lambda>p4.
                    pbind (index payload 5) (\<lambda>p5.
                    pbind (index payload 6) (\<lambda>p6.
                    pbind (reslice payload 0 4) (\<lambda>q.
                    pbind (LittleEndian_Uint32 q) (\<lambda>cm.
                    pbind (index payload 7) (\<lambda>p7.
                      Inr (Inr \<lparr>Type = p4, Autopilot = p5, BaseMode = p6, CustomMode = cm,
                                SystemStatus = p7\<rparr>))))))))))))))"

section \<open>Notions used to state the properties\<close>

text \<open>The datagram of an iteration: the first \<open>n\<close> bytes of the receive buffer.\<close>

definition datagram :: "slice \<Rightarrow> int \<Rightarrow> byte list" where
  "datagram buf n = take (nat n) (bytes_of buf)"

text \<open>The little-endian 32-bit word at offset \<open>i\<close> of a byte sequence.\<close>

definition le32 :: "byte list \<Rightarrow> nat \<Rightarrow> uint32" where
  "le32 bs i = ucast (bs ! i) OR push_bit 8 (ucast (bs ! (i + 1)))
                 OR push_bit 16 (ucast (bs ! (i + 2))) OR push_bit 24 (ucast (bs ! (i + 3)))"

text \<open>Modelled from the spec: the version-2 wire format of its section 6, used to build
  test datagrams (the source has no encoder). Byte 0 is the marker \<open>0xFD\<close>, byte 1 the
  payload length, bytes 2 to 4 incompatibility, compatibility and sequence, byte 5 the
  system id, byte 6 the component id, bytes 7 to 9 the message id (little-endian), then the
  payload and the two checksum bytes.\<close>

definition encodeFrame ::
  "byte \<Rightarrow> byte \<Rightarrow> byte \<Rightarrow> byte \<Rightarrow> byte \<Rightarrow> uint32 \<Rightarrow> byte list \<Rightarrow> byte \<Rightarrow> byte \<Rightarrow> byte list" where
  "encodeFrame incompatFlags compatFlags seqNo sysid compid msgid payload crc0 crc1 =
     [0xFD, of_nat (length payload), incompatFlags, compatFlags, seqNo, sysid, compid,
      ucast msgid, ucast (drop_bit 8 msgid), ucast (drop_bit 16 msgid)]
     @ payload @ [crc0, crc1]"

text \<open>Modelled from the spec: the heartbeat payload layout of its section 4.2, bytes 0 to 3
  the custom mode (little-endian), then vehicle type, autopilot type, base mode and system
  status; the ninth byte is not decoded.\<close>

definition encodeHeartbeat :: "uint32 \<Rightarrow> byte \<Rightarrow> byte \<Rightarrow> byte \<Rightarrow> byte \<Rightarrow> byte \<Rightarrow> byte list" where
  "encodeHeartbeat customMode vehicleType autopilotType baseMode systemStatus ninth =
     [ucast customMode, ucast (drop_bit 8 customMode), ucast (drop_bit 16 customMode),
      ucast (drop_bit 24 customMode), vehicleType, autopilotType, baseMode, systemStatus, ninth]"

text \<open>A heartbeat datagram of 21 bytes (system 1, component 1, message id 0, payload
  length 9), used as a concrete input.\<close>

definition example_datagram :: "byte list" where
  "example_datagram =
     [0xFD, 9, 0, 0, 7, 1, 1, 0, 0, 0, 4, 3, 2, 1, 2, 3, 0x80, 4, 3, 0x12, 0x34]"

text \<open>A position datagram of 40 bytes (message id 33, payload length 28) with latitude
  473977420, longitude 85455000 and altitude -5000.\<close>

definition example_position_datagram :: "byte list" where
  "example_position_datagram =
     [0xFD, 28, 0, 0, 8, 1, 1, 33, 0, 0,
      64, 226, 1, 0, 76, 82, 64, 28, 152, 240, 23, 5, 120, 236, 255, 255,
      232, 3, 0, 0, 0, 0, 0, 0, 0, 0, 0, 0,
      0x56, 0x78]"

section \<open>Little-endian values\<close>

lemma nat_or_push_bit:
  fixes x y :: nat
  assumes "x < 2 ^ k"
  shows "x OR push_bit k y = x + 2 ^ k * y"
proof -
  have tb: "take_bit k x = x"
    using assms by (simp add: take_bit_nat_eq_self)
  have "x AND push_bit k y = 0"
  proof (rule bit_eqI)
    fix n
    have "bit x n \<longleftrightarrow> n < k \<and> bit x n"
      using tb bit_take_bit_iff [of k x n] by simp
    then show "bit (x AND push_bit k y) n \<longleftrightarrow> bit (0::nat) n"
      by (auto simp: bit_and_iff bit_push_bit_iff)
  qed
  then have "x + push_bit k y = x OR push_bit k y"
    by (rule disjunctive_add_eq_or)
  then show ?thesis
    by (simp add: push_bit_eq_mult mult.commute)
qed

lemma unat_byte_lt: "unat (a :: byte) < 256"
proof -
  have "unat a < 2 ^ LENGTH(8)" by (rule unsigned_less)
  then show ?thesis by simp
qed

lemma take_bit_32_small:
  assumes x: "x < 256" and k: "k \<le> 24"
  shows "take_bit 32 (push_bit k x) = push_bit k (x::nat)"
proof -
  have "push_bit k x < 2 ^ k * 2 ^ 8"
    using x by (simp add: push_bit_eq_mult)
  also have "\<dots> = (2::nat) ^ (k + 8)" by (simp add: power_add)
  also have "\<dots> \<le> 2 ^ 32" using k by (intro power_increasing) simp_all
  finally show ?thesis by (simp add: take_bit_nat_eq_self)
qed

lemma unat_le32:
  fixes a b c d :: byte
  shows "unat (ucast a OR push_bit 8 (ucast b) OR push_bit 16 (ucast c)
               OR push_bit 24 (ucast d) :: uint32)
   = unat a + 256 * unat b + 65536 * unat c + 16777216 * unat d"
proof -
  have a: "unat a < 256" and b: "unat b < 256" and c: "unat c < 256" and d: "unat d < 256"
    by (rule unat_byte_lt)+
  have a': "unat a < 2 ^ 8" using a by simp
  have ab: "unat a + 2 ^ 8 * unat b < 2 ^ 16"
    using a b by simp
  have abc: "unat a + 2 ^ 8 * unat b + 2 ^ 16 * unat c < 2 ^ 24"
    using a b c by simp
  have 1: "unat a OR push_bit 8 (unat b) = unat a + 2 ^ 8 * unat b"
    using a' by (rule nat_or_push_bit)
  have 2: "(unat a + 2 ^ 8 * unat b) OR push_bit 16 (unat c)
         = unat a + 2 ^ 8 * unat b + 2 ^ 16 * unat c"
    using ab by (rule nat_or_push_bit)
  have 3: "(unat a + 2 ^ 8 * unat b + 2 ^ 16 * unat c) OR push_bit 24 (unat d)
         = unat a + 2 ^ 8 * unat b + 2 ^ 16 * unat c + 2 ^ 24 * unat d"
    using abc by (rule nat_or_push_bit)
  have t0: "take_bit 32 (unat x) = unat x" for x :: byte
    using take_bit_32_small [of "unat x" 0] unat_byte_lt [of x] by simp
  have "unat (ucast a OR push_bit 8 (ucast b) OR push_bit 16 (ucast c)
              OR push_bit 24 (ucast d) :: uint32)
      = unat a OR push_bit 8 (unat b) OR push_bit 16 (unat c) OR push_bit 24 (unat d)"
    using b c d
    by (simp add: unsigned_or_eq unsigned_push_bit_eq unsigned_ucast_eq t0 take_bit_32_small)
  also have "\<dots> = ((unat a OR push_bit 8 (unat b)) OR push_bit 16 (unat c))
                     OR push_bit 24 (unat d)"
    by (simp add: or.assoc)
  also have "\<dots> = unat a + 2 ^ 8 * unat b + 2 ^ 16 * unat c + 2 ^ 24 * unat d"
    by (simp only: 1 2 3)
  finally show ?thesis by simp
qed

lemma unat_le24:
  fixes a b c :: byte
  shows "unat (ucast a OR push_bit 8 (ucast b) OR push_bit 16 (ucast c) :: uint32)
   = unat a + 256 * unat b + 65536 * unat c"
  using unat_le32 [of a b c 0] by simp

lemma unat_le32_bytes:
  "unat (le32 bs i) = unat (bs ! i) + 256 * unat (bs ! (i + 1)) + 65536 * unat (bs ! (i + 2))
      + 16777216 * unat (bs ! (i + 3))"
  by (simp add: le32_def unat_le32)

section \<open>Basic facts\<close>

lemma pbind_Inr [simp]: "pbind (Inr x) k = k x"
  by (simp add: pbind_def)

lemma pbind_Inl [simp]: "pbind (Inl e) k = Inl e"
  by (simp add: pbind_def)

lemma bytes_of_nth: "wf_slice s \<Longrightarrow> i < slen s \<Longrightarrow> bytes_of s ! i = sarr s ! (soff s + i)"
  by (simp add: bytes_of_def wf_slice_def)

lemma length_bytes_of: "wf_slice s \<Longrightarrow> length (bytes_of s) = slen s"
  by (auto simp: bytes_of_def wf_slice_def)

lemma wf_slice_of [simp]: "wf_slice (slice_of bs)"
  by (simp add: wf_slice_def slice_of_def)

lemma bytes_of_slice_of [simp]: "bytes_of (slice_of bs) = bs"
  by (simp add: bytes_of_def slice_of_def)

lemma slen_slice_of [simp]: "slen (slice_of bs) = length bs"
  by (simp add: slice_of_def)

lemma index_ok:
  "wf_slice s \<Longrightarrow> 0 \<le> i \<Longrightarrow> i < int (slen s) \<Longrightarrow> index s i = Inr (bytes_of s ! nat i)"
  by (simp add: index_def bytes_of_nth)

lemma index_panics: "int (slen s) \<le> i \<Longrightarrow> index s i = Inl IndexOutOfRange"
  by (simp add: index_def)

lemma datagram_nth:
  "wf_slice buf \<Longrightarrow> n \<le> int (slen buf) \<Longrightarrow> i < nat n \<Longrightarrow> datagram buf n ! i = bytes_of buf ! i"
  by (simp add: datagram_def)

lemma length_datagram:
  "wf_slice buf \<Longrightarrow> 0 \<le> n \<Longrightarrow> n \<le> int (slen buf) \<Longrightarrow> int (length (datagram buf n)) = n"
  by (simp add: datagram_def length_bytes_of)

lemma reslice_ok:
  assumes "wf_slice s" "0 \<le> lo" "lo \<le> hi" "hi \<le> int (slen s)"
  shows "\<exists>q. reslice s lo hi = Inr q \<and> wf_slice q \<and> slen q = nat (hi - lo)
             \<and> bytes_of q = take (nat (hi - lo)) (drop (nat lo) (bytes_of s))"
proof -
  let ?q = "\<lparr>sarr = sarr s, soff = soff s + nat lo, slen = nat (hi - lo),
             scap = scap s - nat lo\<rparr>"
  have r: "reslice s lo hi = Inr ?q"
    using assms by (simp add: reslice_def wf_slice_def)
  have w: "wf_slice ?q"
    using assms by (auto simp: wf_slice_def)
  have "take (nat (hi - lo)) (drop (soff s + nat lo) (sarr s))
        = take (nat (hi - lo)) (drop (nat lo) (take (slen s) (drop (soff s) (sarr s))))"
    using assms by (simp add: drop_take add.commute min_def)
  then have b: "bytes_of ?q = take (nat (hi - lo)) (drop (nat lo) (bytes_of s))"
    by (simp add: bytes_of_def)
  from r w b show ?thesis by simp
qed

section \<open>The frame decoder: validation and field extraction\<close>

lemma parseFrame_TooShort: "n < 12 \<Longrightarrow> parseFrame buf n = Inr None"
  by (simp add: parseFrame_def headerLen_def crcLen_def)

lemma parseFrame_BadMagic:
  assumes "wf_slice buf" "n \<le> int (slen buf)" "12 \<le> n" "bytes_of buf ! 0 \<noteq> 0xFD"
  shows "parseFrame buf n = Inr None"
  using assms by (simp add: parseFrame_def headerLen_def crcLen_def index_ok)

lemma parseFrame_Incomplete:
  assumes "wf_slice buf" "n \<le> int (slen buf)" "12 \<le> n" "bytes_of buf ! 0 = 0xFD"
    "n < 10 + uint (bytes_of buf ! 1) + 2"
  shows "parseFrame buf n = Inr None"
  using assms by (simp add: parseFrame_def headerLen_def crcLen_def index_ok Let_def)

lemma parseFrame_accepts:
  assumes "wf_slice buf" "n \<le> int (slen buf)" "12 \<le> n" "bytes_of buf ! 0 = 0xFD"
    "10 + uint (bytes_of buf ! 1) + 2 \<le> n"
  shows "parseFrame buf n =
    Inr (Some \<lparr>Len = uint (bytes_of buf ! 1), SysID = bytes_of buf ! 5, CompID = bytes_of buf ! 6,
               MsgID = ucast (bytes_of buf ! 7) OR push_bit 8 (ucast (bytes_of buf ! 8))
                         OR push_bit 16 (ucast (bytes_of buf ! 9)),
               Payload = \<lparr>sarr = sarr buf, soff = soff buf + 10,
                           slen = unat (bytes_of buf ! 1), scap = scap buf - 10\<rparr>\<rparr>)"
proof -
  have cap: "10 + uint (bytes_of buf ! 1) \<le> int (scap buf)"
    using assms by (simp add: wf_slice_def)
  show ?thesis
    using assms cap
    by (simp add: parseFrame_def headerLen_def crcLen_def index_ok Let_def reslice_def)
qed

text \<open>What is known of a frame the decoder returned.\<close>

lemma parseFrame_SomeD:
  assumes wf: "wf_slice buf" and n: "n \<le> int (slen buf)"
    and ok: "parseFrame buf n = Inr (Some f)"
  shows "12 \<le> n \<and> bytes_of buf ! 0 = 0xFD \<and> 10 + uint (bytes_of buf ! 1) + 2 \<le> n
    \<and> f = \<lparr>Len = uint (bytes_of buf ! 1), SysID = bytes_of buf ! 5, CompID = bytes_of buf ! 6,
            MsgID = ucast (bytes_of buf ! 7) OR push_bit 8 (ucast (bytes_of buf ! 8))
                      OR push_bit 16 (ucast (bytes_of buf ! 9)),
            Payload = \<lparr>sarr = sarr buf, soff = soff buf + 10,
                        slen = unat (bytes_of buf ! 1), scap = scap buf - 10\<rparr>\<rparr>"
proof -
  have 1: "12 \<le> n"
    using parseFrame_TooShort [of n buf] ok by (cases "n < 12") simp_all
  have 2: "bytes_of buf ! 0 = 0xFD"
    using parseFrame_BadMagic [OF wf n 1] ok by (cases "bytes_of buf ! 0 = 0xFD") simp_all
  have 3: "10 + uint (bytes_of buf ! 1) + 2 \<le> n"
    using parseFrame_Incomplete [OF wf n 1 2] ok
    by (cases "n < 10 + uint (bytes_of buf ! 1) + 2") simp_all
  from parseFrame_accepts [OF wf n 1 2 3] ok 1 2 3 show ?thesis
    by simp
qed

lemma parseFrame_payload:
  assumes wf: "wf_slice buf" and n: "n \<le> int (slen buf)"
    and ok: "parseFrame buf n = Inr (Some f)"
  shows "wf_slice (Payload f)" and "int (slen (Payload f)) = Len f"
    and "bytes_of (Payload f) = take (nat (Len f)) (drop 10 (datagram buf n))"
proof -
  note d = parseFrame_SomeD [OF wf n ok]
  from d have f: "Payload f = \<lparr>sarr = sarr buf, soff = soff buf + 10,
        slen = unat (bytes_of buf ! 1), scap = scap buf - 10\<rparr>"
    and l: "Len f = uint (bytes_of buf ! 1)"
    by simp_all
  from d have c: "10 + uint (bytes_of buf ! 1) + 2 \<le> n"
    by simp
  have b: "10 + unat (bytes_of buf ! 1) + 2 \<le> nat n"
    using c unfolding uint_nat by linarith
  with n have b': "10 + unat (bytes_of buf ! 1) + 2 \<le> slen buf"
    by linarith
  show "wf_slice (Payload f)"
    using wf b' by (auto simp: f wf_slice_def)
  show "int (slen (Payload f)) = Len f"
    by (simp add: f l)
  have "take (unat (bytes_of buf ! 1)) (drop (soff buf + 10) (sarr buf))
      = take (unat (bytes_of buf ! 1)) (drop 10 (take (nat n) (take (slen buf) (drop (soff buf) (sarr buf)))))"
    using b b' by (simp add: drop_take add.commute min_def)
  then show "bytes_of (Payload f) = take (nat (Len f)) (drop 10 (datagram buf n))"
    by (simp add: f l bytes_of_def datagram_def)
qed

text \<open>On the first \<open>n\<close> bytes of a well-formed buffer the decoder does not panic.\<close>

lemma parseFrame_total:
  assumes "wf_slice buf" "n \<le> int (slen buf)"
  shows "parseFrame buf n = Inr None \<or> (\<exists>f. parseFrame buf n = Inr (Some f))"
proof (cases "12 \<le> n \<and> bytes_of buf ! 0 = 0xFD \<and> 10 + uint (bytes_of buf ! 1) + 2 \<le> n")
  case True
  then show ?thesis using parseFrame_accepts [OF assms] by simp
next
  case False
  then consider "n < 12" | "12 \<le> n" "bytes_of buf ! 0 \<noteq> 0xFD"
    | "12 \<le> n" "bytes_of buf ! 0 = 0xFD" "n < 10 + uint (bytes_of buf ! 1) + 2"
    by linarith
  then show ?thesis
  proof cases
    case 1
    then show ?thesis by (simp add: parseFrame_TooShort)
  next
    case 2
    then show ?thesis using parseFrame_BadMagic [OF assms] by simp
  next
    case 3
    then show ?thesis using parseFrame_Incomplete [OF assms] by simp
  qed
qed

text \<open>Claim C3, as the code has it. For a datagram of \<open>n\<close> bytes held in a well-formed
  buffer, \<open>parseFrame\<close> never panics; it rejects exactly when \<open>n < 12\<close>, or the first byte
  is not \<open>0xFD\<close>, or \<open>10 + byte 1 + 2\<close> exceeds \<open>n\<close>; and it produces a frame exactly when
  all three checks pass. Every rejection is the same value \<open>(frame{}, false)\<close>: the code
  has no rejection reasons.\<close>

theorem parseFrame_validation:
  assumes "wf_slice buf" "n \<le> int (slen buf)"
  shows "(parseFrame buf n = Inr None) =
           (n < 12 \<or> datagram buf n ! 0 \<noteq> 0xFD \<or> n < 10 + uint (datagram buf n ! 1) + 2)
       \<and> (\<exists>f. parseFrame buf n = Inr (Some f)) =
           (12 \<le> n \<and> datagram buf n ! 0 = 0xFD \<and> 10 + uint (datagram buf n ! 1) + 2 \<le> n)"
proof (cases "n < 12")
  case True
  then show ?thesis by (simp add: parseFrame_TooShort)
next
  case False
  then have n12: "12 \<le> n" by simp
  have d0: "datagram buf n ! 0 = bytes_of buf ! 0" and d1: "datagram buf n ! 1 = bytes_of buf ! 1"
    using assms n12 by (simp_all add: datagram_nth)
  have d1': "datagram buf n ! Suc 0 = bytes_of buf ! Suc 0"
    using d1 by simp
  show ?thesis
  proof (cases "bytes_of buf ! 0 = 0xFD")
    case False
    then show ?thesis
      using parseFrame_BadMagic [OF assms n12] by (simp add: d0)
  next
    case magic: True
    show ?thesis
    proof (cases "n < 10 + uint (bytes_of buf ! 1) + 2")
      case True
      then show ?thesis
        using parseFrame_Incomplete [OF assms n12 magic] by (simp add: d0 d1')
    next
      case False
      then have "10 + uint (bytes_of buf ! 1) + 2 \<le> n" by simp
      from parseFrame_accepts [OF assms n12 magic this] n12 magic False show ?thesis
        by (simp add: d0 d1')
    qed
  qed
qed

theorem parseFrame_validation_witness:
  "wf_slice (slice_of example_datagram) \<and> 21 \<le> int (slen (slice_of example_datagram))
   \<and> (\<exists>f. parseFrame (slice_of example_datagram) 21 = Inr (Some f))
   \<and> parseFrame (slice_of example_datagram) 20 = Inr None
   \<and> parseFrame (slice_of example_datagram) 11 = Inr None
   \<and> parseFrame (slice_of (example_datagram[0 := 0xFE])) 21 = Inr None"
proof -
  have w: "wf_slice (slice_of example_datagram)" by simp
  have w': "wf_slice (slice_of (example_datagram[0 := 0xFE]))" by simp
  have l: "21 \<le> int (slen (slice_of example_datagram))"
    and l20: "20 \<le> int (slen (slice_of example_datagram))"
    and l11: "11 \<le> int (slen (slice_of example_datagram))"
    and l': "21 \<le> int (slen (slice_of (example_datagram[0 := 0xFE])))"
    by (simp_all add: example_datagram_def)
  show ?thesis
    using w l parseFrame_validation [OF w l] parseFrame_validation [OF w l20]
      parseFrame_validation [OF w l11] parseFrame_validation [OF w' l']
    by (simp add: datagram_def example_datagram_def)
qed

text \<open>Claim C3 as stated fails: a datagram that is too short, one with a bad marker and
  an incomplete one are rejected with one and the same result, so the rejection carries
  no reason.\<close>

theorem parseFrame_rejections_indistinguishable:
  "parseFrame (slice_of [0xFD, 0, 0]) 3 = Inr None
   \<and> parseFrame (slice_of [0, 0, 0, 0, 0, 0, 0, 0, 0, 0, 0, 0]) 12 = Inr None
   \<and> parseFrame (slice_of [0xFD, 9, 0, 0, 0, 0, 0, 0, 0, 0, 0, 0]) 12 = Inr None"
  by (simp add: parseFrame_def headerLen_def crcLen_def index_def slice_of_def Let_def)

text \<open>Claim C4. The fields of an accepted frame: system id is byte 5, component id byte 6,
  the message id the 24-bit little-endian value of bytes 7 to 9, the payload length byte 1
  and the payload the bytes from 10 up to 10 + payload length.\<close>

theorem parseFrame_fields:
  assumes "wf_slice buf" "n \<le> int (slen buf)" "parseFrame buf n = Inr (Some f)"
  shows "SysID f = datagram buf n ! 5 \<and> CompID f = datagram buf n ! 6
    \<and> MsgID f = ucast (datagram buf n ! 7) OR push_bit 8 (ucast (datagram buf n ! 8))
                   OR push_bit 16 (ucast (datagram buf n ! 9))
    \<and> unat (MsgID f) = unat (datagram buf n ! 7) + 256 * unat (datagram buf n ! 8)
                          + 65536 * unat (datagram buf n ! 9)
    \<and> Len f = uint (datagram buf n ! 1)
    \<and> bytes_of (Payload f) = take (nat (Len f)) (drop 10 (datagram buf n))"
proof -
  note d = parseFrame_SomeD [OF assms]
  then have n12: "12 \<le> n" by simp
  have nth: "datagram buf n ! i = bytes_of buf ! i" if "i < 12" for i
    using that n12 assms(1,2) by (simp add: datagram_nth)
  have m: "MsgID f = ucast (bytes_of buf ! 7) OR push_bit 8 (ucast (bytes_of buf ! 8))
                   OR push_bit 16 (ucast (bytes_of buf ! 9))"
    using d by simp
  show ?thesis
    using d parseFrame_payload(3) [OF assms]
    by (simp add: nth m unat_le24)
qed

theorem parseFrame_fields_witness:
  "wf_slice (slice_of example_datagram) \<and> 21 \<le> int (slen (slice_of example_datagram))
   \<and> (\<exists>f. parseFrame (slice_of example_datagram) 21 = Inr (Some f)
        \<and> SysID f = 1 \<and> CompID f = 1 \<and> unat (MsgID f) = 0 \<and> Len f = 9
        \<and> bytes_of (Payload f) = [4, 3, 2, 1, 2, 3, 0x80, 4, 3])"
proof -
  have w: "wf_slice (slice_of example_datagram)" by simp
  have l: "21 \<le> int (slen (slice_of example_datagram))"
    by (simp add: example_datagram_def)
  obtain f where f: "parseFrame (slice_of example_datagram) 21 = Inr (Some f)"
    using parseFrame_accepts [OF w l] by (simp add: example_datagram_def)
  show ?thesis
    using w l f parseFrame_fields [OF w l f]
    by (simp add: datagram_def example_datagram_def)
qed

text \<open>Claim C8. The payload of a frame produced from a datagram of \<open>n\<close> bytes is a view of
  the buffer's array: it has exactly \<open>Len\<close> bytes, with \<open>Len\<close> between 0 and 255; it starts
  10 bytes after the start of the datagram and ends at least 2 bytes before the end of
  the datagram; and \<open>10 + Len + 2 \<le> n\<close>.\<close>

theorem parseFrame_payload_within_datagram:
  assumes "wf_slice buf" "n \<le> int (slen buf)" "parseFrame buf n = Inr (Some f)"
  shows "length (bytes_of (Payload f)) = nat (Len f) \<and> int (slen (Payload f)) = Len f
    \<and> 0 \<le> Len f \<and> Len f \<le> 255
    \<and> headerLen + Len f + crcLen \<le> n
    \<and> sarr (Payload f) = sarr buf \<and> soff (Payload f) = soff buf + 10
    \<and> int (soff (Payload f) + slen (Payload f)) + crcLen \<le> int (soff buf) + n
    \<and> wf_slice (Payload f)"
proof -
  note d = parseFrame_SomeD [OF assms]
  note p = parseFrame_payload [OF assms]
  have u: "uint (bytes_of buf ! 1) \<le> 255"
    using uint_lt2p [of "bytes_of buf ! 1"] by simp
  have "length (bytes_of (Payload f)) = slen (Payload f)"
    using p(1) by (rule length_bytes_of)
  moreover have "slen (Payload f) = nat (Len f)"
    using p(2) by linarith
  ultimately show ?thesis
    using d p(1,2) u by (simp add: headerLen_def crcLen_def)
qed

theorem parseFrame_payload_within_datagram_witness:
  "wf_slice (slice_of example_datagram) \<and> 21 \<le> int (slen (slice_of example_datagram))
   \<and> (\<exists>f. parseFrame (slice_of example_datagram) 21 = Inr (Some f)
        \<and> length (bytes_of (Payload f)) = 9 \<and> Len f = 9 \<and> soff (Payload f) = 10)"
proof -
  have w: "wf_slice (slice_of example_datagram)" by simp
  have l: "21 \<le> int (slen (slice_of example_datagram))"
    by (simp add: example_datagram_def)
  obtain f where f: "parseFrame (slice_of example_datagram) 21 = Inr (Some f)"
    using parseFrame_accepts [OF w l] by (simp add: example_datagram_def)
  have 9: "Len f = 9"
    using parseFrame_SomeD [OF w l f] by (simp add: example_datagram_def)
  show ?thesis
    using w l f 9 parseFrame_payload_within_datagram [OF w l f]
    by (simp add: slice_of_def)
qed

section \<open>The message decoders\<close>

lemma LittleEndian_Uint32_ok:
  assumes "wf_slice b" "4 \<le> slen b"
  shows "LittleEndian_Uint32 b = Inr (le32 (bytes_of b) 0)"
  using assms by (simp add: LittleEndian_Uint32_def index_ok le32_def numeral_2_eq_2)

lemma read32:
  assumes "wf_slice p" "0 \<le> lo" "hi = lo + 4" "hi \<le> int (slen p)"
  shows "pbind (reslice p lo hi) (\<lambda>q. pbind (LittleEndian_Uint32 q) k)
         = k (le32 (bytes_of p) (nat lo))"
proof -
  from reslice_ok [of p lo hi] assms obtain q where
    q: "reslice p lo hi = Inr q" "wf_slice q" "slen q = 4"
       "bytes_of q = take 4 (drop (nat lo) (bytes_of p))"
    by auto
  have len: "nat lo + 4 \<le> length (bytes_of p)"
    using assms by (simp add: length_bytes_of)
  have "le32 (bytes_of q) 0 = le32 (bytes_of p) (nat lo)"
    using len by (simp add: le32_def q(4))
  with q show ?thesis
    by (simp add: LittleEndian_Uint32_ok)
qed

text \<open>The three behaviours of \<open>tryHeartbeat\<close> on a frame with a well-formed payload.\<close>

lemma tryHeartbeat_rejects:
  "MsgID f \<noteq> 0 \<Longrightarrow> slen (Payload f) \<noteq> 9 \<Longrightarrow> tryHeartbeat f = Inr None"
  by (simp add: tryHeartbeat_def)

lemma tryHeartbeat_decodes:
  assumes "wf_slice (Payload f)" "8 \<le> slen (Payload f)" "MsgID f = 0 \<or> slen (Payload f) = 9"
  shows "tryHeartbeat f =
     Inr (Some \<lparr>Type = bytes_of (Payload f) ! 4, Autopilot = bytes_of (Payload f) ! 5,
                BaseMode = bytes_of (Payload f) ! 6, CustomMode = le32 (bytes_of (Payload f)) 0,
                SystemStatus = bytes_of (Payload f) ! 7\<rparr>)"
proof -
  have rd: "\<And>k. pbind (reslice (Payload f) 0 4) (\<lambda>q. pbind (LittleEndian_Uint32 q) k)
            = k (le32 (bytes_of (Payload f)) 0)"
    using read32 [of "Payload f" 0 4] assms by simp
  have g: "\<not> (MsgID f \<noteq> 0 \<and> int (slen (Payload f)) \<noteq> 9)"
    using assms(3) by auto
  show ?thesis
    unfolding tryHeartbeat_def Let_def using assms(1,2)
    by (simp only: g if_False) (simp add: index_ok rd)
qed

lemma tryHeartbeat_panics:
  assumes "wf_slice (Payload f)" "slen (Payload f) < 8" "MsgID f = 0"
  shows "tryHeartbeat f = Inl IndexOutOfRange"
proof -
  have rd: "4 \<le> slen (Payload f) \<Longrightarrow>
      pbind (reslice (Payload f) 0 4) (\<lambda>q. pbind (LittleEndian_Uint32 q) k)
            = k (le32 (bytes_of (Payload f)) 0)" for k
    using read32 [of "Payload f" 0 4] assms by simp
  consider "slen (Payload f) \<le> 4" | "slen (Payload f) = 5" | "slen (Payload f) = 6"
    | "slen (Payload f) = 7"
    using assms(2) by linarith
  then show ?thesis
  proof cases
    case 1
    then show ?thesis using assms by (simp add: tryHeartbeat_def Let_def index_panics)
  next
    case 2
    then show ?thesis using assms by (simp add: tryHeartbeat_def Let_def index_panics index_ok)
  next
    case 3
    then show ?thesis using assms by (simp add: tryHeartbeat_def Let_def index_panics index_ok)
  next
    case 4
    then show ?thesis using assms rd
      by (simp add: tryHeartbeat_def Let_def index_panics index_ok)
  qed
qed

lemma tryGlobalPosition_rejects:
  "MsgID f \<noteq> 33 \<or> slen (Payload f) < 28 \<Longrightarrow> tryGlobalPosition f = Inr None"
  by (auto simp: tryGlobalPosition_def)

lemma tryGlobalPosition_decodes:
  assumes "wf_slice (Payload f)" "28 \<le> slen (Payload f)" "MsgID f = 33"
  shows "tryGlobalPosition f =
     Inr (Some (float64_div (sint (le32 (bytes_of (Payload f)) 4)) 10000000,
                float64_div (sint (le32 (bytes_of (Payload f)) 8)) 10000000,
                float64_div (sint (le32 (bytes_of (Payload f)) 12)) 1000))"
proof -
  have r1: "\<And>k. pbind (reslice (Payload f) 4 8) (\<lambda>q. pbind (LittleEndian_Uint32 q) k)
            = k (le32 (bytes_of (Payload f)) 4)"
    using read32 [of "Payload f" 4 8] assms by simp
  have r2: "\<And>k. pbind (reslice (Payload f) 8 12) (\<lambda>q. pbind (LittleEndian_Uint32 q) k)
            = k (le32 (bytes_of (Payload f)) 8)"
    using read32 [of "Payload f" 8 12] assms by simp
  have r3: "\<And>k. pbind (reslice (Payload f) 12 16) (\<lambda>q. pbind (LittleEndian_Uint32 q) k)
            = k (le32 (bytes_of (Payload f)) 12)"
    using read32 [of "Payload f" 12 16] assms by simp
  show ?thesis
    using assms by (simp add: tryGlobalPosition_def Let_def r1 r2 r3)
qed

lemma dispatch_heartbeat:
  "tryHeartbeat f = Inr (Some hb) \<Longrightarrow>
   dispatch f = Inr (Some (HEARTBEAT (Type hb) (Autopilot hb) (BaseMode hb) (armed hb)
                             (CustomMode hb) (SystemStatus hb)))"
  by (simp add: dispatch_def)

lemma dispatch_position:
  "tryHeartbeat f = Inr None \<Longrightarrow> tryGlobalPosition f = Inr (Some (lat, lon, alt)) \<Longrightarrow>
   dispatch f = Inr (Some (GLOBAL_POSITION_INT lat lon alt))"
  by (simp add: dispatch_def)

lemma dispatch_none:
  "tryHeartbeat f = Inr None \<Longrightarrow> tryGlobalPosition f = Inr None \<Longrightarrow> dispatch f = Inr None"
  by (simp add: dispatch_def)

lemma dispatch_panics: "tryHeartbeat f = Inl e \<Longrightarrow> dispatch f = Inl e"
  by (simp add: dispatch_def)

text \<open>Where the dispatcher does ignore an unknown message id: when the payload length
  is not 9.\<close>

lemma dispatch_unknown_ignored:
  assumes "MsgID f \<noteq> 0" "MsgID f \<noteq> 33" "slen (Payload f) \<noteq> 9"
  shows "dispatch f = Inr None"
  using assms by (simp add: dispatch_none tryHeartbeat_rejects tryGlobalPosition_rejects)

text \<open>Claim C5. For a validated frame with message id 0 and payload length at least 9 the
  heartbeat decode succeeds: custom mode is the little-endian 32-bit value of payload
  bytes 0 to 3, vehicle type byte 4, autopilot type byte 5, base mode byte 6, system
  status byte 7, and armed is \<open>(baseMode & 0x80) != 0\<close>; a base mode of \<open>0x7F\<close> is not armed,
  a base mode of \<open>0xFF\<close> is.\<close>

theorem heartbeat_decode:
  assumes "wf_slice buf" "n \<le> int (slen buf)" "parseFrame buf n = Inr (Some f)"
    and "MsgID f = 0" "9 \<le> Len f"
  shows "\<exists>hb. tryHeartbeat f = Inr (Some hb)
    \<and> CustomMode hb = le32 (bytes_of (Payload f)) 0
    \<and> unat (CustomMode hb) =
        unat (bytes_of (Payload f) ! 0) + 256 * unat (bytes_of (Payload f) ! 1)
        + 65536 * unat (bytes_of (Payload f) ! 2) + 16777216 * unat (bytes_of (Payload f) ! 3)
    \<and> Type hb = bytes_of (Payload f) ! 4 \<and> Autopilot hb = bytes_of (Payload f) ! 5
    \<and> BaseMode hb = bytes_of (Payload f) ! 6 \<and> SystemStatus hb = bytes_of (Payload f) ! 7
    \<and> armed hb = (bytes_of (Payload f) ! 6 AND 0x80 \<noteq> 0)
    \<and> armed (hb\<lparr>BaseMode := 0x7F\<rparr>) = False \<and> armed (hb\<lparr>BaseMode := 0xFF\<rparr>) = True
    \<and> dispatch f = Inr (Some (HEARTBEAT (Type hb) (Autopilot hb) (BaseMode hb) (armed hb)
                                 (CustomMode hb) (SystemStatus hb)))"
proof -
  note p = parseFrame_payload [OF assms(1-3)]
  have len: "8 \<le> slen (Payload f)"
    using p(2) assms(5) by linarith
  let ?hb = "\<lparr>Type = bytes_of (Payload f) ! 4, Autopilot = bytes_of (Payload f) ! 5,
              BaseMode = bytes_of (Payload f) ! 6, CustomMode = le32 (bytes_of (Payload f)) 0,
              SystemStatus = bytes_of (Payload f) ! 7\<rparr>"
  have t: "tryHeartbeat f = Inr (Some ?hb)"
    using tryHeartbeat_decodes [OF p(1) len] assms(4) by simp
  have u: "unat (CustomMode ?hb) =
        unat (bytes_of (Payload f) ! 0) + 256 * unat (bytes_of (Payload f) ! 1)
        + 65536 * unat (bytes_of (Payload f) ! 2) + 16777216 * unat (bytes_of (Payload f) ! 3)"
    using unat_le32_bytes [of "bytes_of (Payload f)" 0] by (simp add: numeral_2_eq_2)
  have a1: "armed (?hb\<lparr>BaseMode := 0x7F\<rparr>) = False"
    and a2: "armed (?hb\<lparr>BaseMode := 0xFF\<rparr>) = True"
    by (simp_all add: armed_def)
  have a: "armed ?hb = (bytes_of (Payload f) ! 6 AND 0x80 \<noteq> 0)"
    by (simp add: armed_def)
  have d: "dispatch f = Inr (Some (HEARTBEAT (Type ?hb) (Autopilot ?hb) (BaseMode ?hb)
                                     (armed ?hb) (CustomMode ?hb) (SystemStatus ?hb)))"
    using t by (rule dispatch_heartbeat)
  show ?thesis
    apply (rule exI [of _ ?hb])
    using t u a a1 a2 d by simp
qed

theorem heartbeat_decode_witness:
  "wf_slice (slice_of example_datagram) \<and> 21 \<le> int (slen (slice_of example_datagram))
   \<and> (\<exists>f hb. parseFrame (slice_of example_datagram) 21 = Inr (Some f)
        \<and> MsgID f = 0 \<and> 9 \<le> Len f \<and> tryHeartbeat f = Inr (Some hb)
        \<and> unat (CustomMode hb) = 16909060 \<and> Type hb = 2 \<and> Autopilot hb = 3
        \<and> BaseMode hb = 0x80 \<and> SystemStatus hb = 4 \<and> armed hb)"
proof -
  have w: "wf_slice (slice_of example_datagram)" by simp
  have l: "21 \<le> int (slen (slice_of example_datagram))"
    by (simp add: example_datagram_def)
  obtain f where f: "parseFrame (slice_of example_datagram) 21 = Inr (Some f)"
    using parseFrame_accepts [OF w l] by (simp add: example_datagram_def)
  note d = parseFrame_SomeD [OF w l f]
  have m: "MsgID f = 0" and 9: "9 \<le> Len f"
    using d by (simp_all add: example_datagram_def)
  have b: "bytes_of (Payload f) = [4, 3, 2, 1, 2, 3, 0x80, 4, 3]"
    using parseFrame_payload(3) [OF w l f] d
    by (simp add: datagram_def example_datagram_def)
  from heartbeat_decode [OF w l f m 9] obtain hb where
    hb: "tryHeartbeat f = Inr (Some hb)"
      "unat (CustomMode hb) =
        unat (bytes_of (Payload f) ! 0) + 256 * unat (bytes_of (Payload f) ! 1)
        + 65536 * unat (bytes_of (Payload f) ! 2) + 16777216 * unat (bytes_of (Payload f) ! 3)"
      "Type hb = bytes_of (Payload f) ! 4" "Autopilot hb = bytes_of (Payload f) ! 5"
      "BaseMode hb = bytes_of (Payload f) ! 6" "SystemStatus hb = bytes_of (Payload f) ! 7"
      "armed hb = (bytes_of (Payload f) ! 6 AND 0x80 \<noteq> 0)"
    by blast
  show ?thesis
    using w l f m 9 hb by (simp add: b)
qed

text \<open>Claim C7. The synthetic heartbeat (custom mode \<open>0x01020304\<close>, vehicle type 2,
  autopilot type 3, base mode \<open>0x80\<close>, system status 4) framed as a version-2 datagram of
  21 bytes with message id 0, whatever the unused header bytes, the ninth payload byte,
  the checksum and the rest of the buffer are, is accepted by the frame decoder and
  decoded as a heartbeat with \<open>armed = true\<close> and custom mode \<open>0x01020304\<close>.\<close>

theorem heartbeat_roundtrip:
  "\<exists>f hb. parseFrame (slice_of (encodeFrame incompatFlags compatFlags seqNo sysid compid 0
                              (encodeHeartbeat 0x01020304 2 3 0x80 4 ninth) crc0 crc1 @ rest)) 21
             = Inr (Some f)
     \<and> SysID f = sysid \<and> CompID f = compid \<and> MsgID f = 0 \<and> Len f = 9
     \<and> tryHeartbeat f = Inr (Some hb)
     \<and> armed hb = True \<and> CustomMode hb = 0x01020304
     \<and> Type hb = 2 \<and> Autopilot hb = 3 \<and> BaseMode hb = 0x80 \<and> SystemStatus hb = 4
     \<and> dispatch f = Inr (Some (HEARTBEAT 2 3 0x80 True 0x01020304 4))"
proof -
  let ?d = "encodeFrame incompatFlags compatFlags seqNo sysid compid 0
              (encodeHeartbeat 0x01020304 2 3 0x80 4 ninth) crc0 crc1 @ rest"
  have e: "?d = [0xFD, 9, incompatFlags, compatFlags, seqNo, sysid, compid, 0, 0, 0,
                 4, 3, 2, 1, 2, 3, 0x80, 4, ninth, crc0, crc1] @ rest"
    by (simp add: encodeFrame_def encodeHeartbeat_def)
  have w: "wf_slice (slice_of ?d)" by simp
  have l: "21 \<le> int (slen (slice_of ?d))"
    by (simp add: e)
  obtain f where f: "parseFrame (slice_of ?d) 21 = Inr (Some f)"
    using parseFrame_accepts [OF w l] by (simp add: e)
  note d = parseFrame_SomeD [OF w l f]
  have m: "SysID f = sysid" "CompID f = compid" "MsgID f = 0" "Len f = 9"
    using d by (simp_all add: e)
  note p = parseFrame_payload [OF w l f]
  have b: "bytes_of (Payload f) = [4, 3, 2, 1, 2, 3, 0x80, 4, ninth]"
    using p(3) m by (simp add: datagram_def e)
  have len: "8 \<le> slen (Payload f)"
    using p(2) m by linarith
  have c: "le32 [4, 3, 2, 1, 2, 3, 0x80, 4, ninth] 0 = 0x01020304"
    by (simp add: le32_def)
  let ?hb = "\<lparr>Type = 2, Autopilot = 3, BaseMode = 0x80, CustomMode = 0x01020304,
              SystemStatus = 4\<rparr> :: Heartbeat"
  have t: "tryHeartbeat f = Inr (Some ?hb)"
    using tryHeartbeat_decodes [OF p(1) len] m by (simp add: b c)
  have a: "armed ?hb" by (simp add: armed_def)
  have "dispatch f = Inr (Some (HEARTBEAT 2 3 0x80 True 0x01020304 4))"
    using dispatch_heartbeat [OF t] a by simp
  with f m t a show ?thesis
    by (intro exI [of _ f] exI [of _ ?hb]) simp
qed

text \<open>Claim C10. The heartbeat decoded from a frame with message id 0 depends only on
  payload bytes 0 to 7: two such frames whose payloads (of at least 8 bytes, so that
  the decode succeeds) agree on their first 8 bytes decode to the same heartbeat and
  print the same record, whatever their later payload bytes, payload lengths, system
  ids and component ids are. Every frame the decoder produces has a well-formed
  payload.\<close>

theorem heartbeat_depends_on_first_eight_bytes:
  assumes "wf_slice (Payload f1)" "wf_slice (Payload f2)"
    and "MsgID f1 = 0" "MsgID f2 = 0"
    and "8 \<le> slen (Payload f1)" "8 \<le> slen (Payload f2)"
    and "take 8 (bytes_of (Payload f1)) = take 8 (bytes_of (Payload f2))"
  shows "tryHeartbeat f1 = tryHeartbeat f2 \<and> (\<exists>hb. tryHeartbeat f1 = Inr (Some hb))
    \<and> dispatch f1 = dispatch f2"
proof -
  have nth: "bytes_of (Payload f1) ! i = bytes_of (Payload f2) ! i" if "i < 8" for i
  proof -
    have "take 8 (bytes_of (Payload f1)) ! i = take 8 (bytes_of (Payload f2)) ! i"
      using assms(7) by simp
    then show ?thesis using that by simp
  qed
  have le: "le32 (bytes_of (Payload f1)) 0 = le32 (bytes_of (Payload f2)) 0"
    by (simp add: le32_def nth)
  have t1: "tryHeartbeat f1 =
     Inr (Some \<lparr>Type = bytes_of (Payload f1) ! 4, Autopilot = bytes_of (Payload f1) ! 5,
                BaseMode = bytes_of (Payload f1) ! 6, CustomMode = le32 (bytes_of (Payload f1)) 0,
                SystemStatus = bytes_of (Payload f1) ! 7\<rparr>)"
    using tryHeartbeat_decodes [OF assms(1) assms(5)] assms(3) by simp
  have t2: "tryHeartbeat f2 =
     Inr (Some \<lparr>Type = bytes_of (Payload f2) ! 4, Autopilot = bytes_of (Payload f2) ! 5,
                BaseMode = bytes_of (Payload f2) ! 6, CustomMode = le32 (bytes_of (Payload f2)) 0,
                SystemStatus = bytes_of (Payload f2) ! 7\<rparr>)"
    using tryHeartbeat_decodes [OF assms(2) assms(6)] assms(4) by simp
  have eq: "tryHeartbeat f1 = tryHeartbeat f2"
    by (simp add: t1 t2 nth le)
  have dd: "dispatch f1 = dispatch f2"
    using dispatch_heartbeat [OF t1] dispatch_heartbeat [OF t2]
    by (simp add: nth le armed_def)
  have ex: "\<exists>hb. tryHeartbeat f1 = Inr (Some hb)"
    using t1 by blast
  from eq ex dd show ?thesis by blast
qed

theorem heartbeat_depends_on_first_eight_bytes_witness:
  "tryHeartbeat \<lparr>Len = 9, SysID = 1, CompID = 1, MsgID = 0,
                  Payload = slice_of [4, 3, 2, 1, 2, 3, 0x80, 4, 3]\<rparr>
   = tryHeartbeat \<lparr>Len = 10, SysID = 7, CompID = 9, MsgID = 0,
                    Payload = slice_of [4, 3, 2, 1, 2, 3, 0x80, 4, 0xFF, 0xEE]\<rparr>
   \<and> dispatch \<lparr>Len = 9, SysID = 1, CompID = 1, MsgID = 0,
                 Payload = slice_of [4, 3, 2, 1, 2, 3, 0x80, 4, 3]\<rparr>
   = dispatch \<lparr>Len = 10, SysID = 7, CompID = 9, MsgID = 0,
                 Payload = slice_of [4, 3, 2, 1, 2, 3, 0x80, 4, 0xFF, 0xEE]\<rparr>"
  using heartbeat_depends_on_first_eight_bytes
    [of "\<lparr>Len = 9, SysID = 1, CompID = 1, MsgID = 0,
           Payload = slice_of [4, 3, 2, 1, 2, 3, 0x80, 4, 3]\<rparr>"
        "\<lparr>Len = 10, SysID = 7, CompID = 9, MsgID = 0,
           Payload = slice_of [4, 3, 2, 1, 2, 3, 0x80, 4, 0xFF, 0xEE]\<rparr>"]
  by simp

section \<open>Where the dispatcher departs from its description\<close>

text \<open>The guard of \<open>tryHeartbeat\<close> is \<open>f.MsgID != 0 && len(f.Payload) != 9\<close>, where the
  earlier decoder \<open>parseMAVLinkPacket\<close> has \<open>msgID != 0 || payloadLen != 9\<close>. So a frame
  with any message id and a payload of 9 bytes is decoded as a heartbeat, and a frame
  with message id 0 and a payload shorter than 8 bytes makes the decoder read past the
  payload.\<close>

lemma dispatch_nine_bytes_is_heartbeat:
  assumes "wf_slice (Payload f)" "slen (Payload f) = 9"
  shows "\<exists>hb. tryHeartbeat f = Inr (Some hb) \<and>
     dispatch f = Inr (Some (HEARTBEAT (Type hb) (Autopilot hb) (BaseMode hb) (armed hb)
                               (CustomMode hb) (SystemStatus hb)))"
proof -
  have "8 \<le> slen (Payload f)" using assms(2) by simp
  from tryHeartbeat_decodes [OF assms(1) this] assms(2) obtain hb
    where "tryHeartbeat f = Inr (Some hb)" by simp
  then show ?thesis using dispatch_heartbeat by blast
qed

lemma dispatch_short_heartbeat_panics:
  assumes "wf_slice (Payload f)" "MsgID f = 0" "slen (Payload f) < 8"
  shows "dispatch f = Inl IndexOutOfRange"
  using tryHeartbeat_panics [OF assms(1) assms(3) assms(2)] by (rule dispatch_panics)

lemma parseMAVLinkPacket_rejects_other_ids:
  assumes "wf_slice buf" "n \<le> int (slen buf)" "10 \<le> n" "bytes_of buf ! 0 = 0xFD"
    and "ucast (bytes_of buf ! 7) OR push_bit 8 (ucast (bytes_of buf ! 8))
           OR push_bit 16 (ucast (bytes_of buf ! 9)) \<noteq> (0 :: uint32)"
  shows "parseMAVLinkPacket buf n = Inr (Inl NotHeartbeat)"
  using assms by (simp add: parseMAVLinkPacket_def index_ok Let_def)

text \<open>Claim C1 at a concrete input: the example heartbeat datagram with message id 42
  instead of 0 is accepted by the frame decoder and printed as a heartbeat.\<close>

theorem unknown_message_id_decoded_as_heartbeat:
  "\<exists>f. parseFrame (slice_of (example_datagram[7 := 42])) 21 = Inr (Some f)
     \<and> MsgID f = 42
     \<and> dispatch f = Inr (Some (HEARTBEAT 2 3 0x80 True 0x01020304 4))"
proof -
  let ?d = "example_datagram[7 := 42]"
  have w: "wf_slice (slice_of ?d)" by simp
  have l: "21 \<le> int (slen (slice_of ?d))"
    by (simp add: example_datagram_def)
  obtain f where f: "parseFrame (slice_of ?d) 21 = Inr (Some f)"
    using parseFrame_accepts [OF w l] by (simp add: example_datagram_def)
  note d = parseFrame_SomeD [OF w l f]
  have m: "MsgID f = 42" "Len f = 9"
    using d by (simp_all add: example_datagram_def)
  note p = parseFrame_payload [OF w l f]
  have b: "bytes_of (Payload f) = [4, 3, 2, 1, 2, 3, 0x80, 4, 3]"
    using p(3) m by (simp add: datagram_def example_datagram_def)
  have len: "8 \<le> slen (Payload f)" "slen (Payload f) = 9"
    using p(2) m by linarith+
  have c: "le32 [4, 3, 2, 1, 2, 3, 0x80, 4, 3] 0 = 0x01020304"
    by (simp add: le32_def)
  have t: "tryHeartbeat f = Inr (Some \<lparr>Type = 2, Autopilot = 3, BaseMode = 0x80,
              CustomMode = 0x01020304, SystemStatus = 4\<rparr>)"
    using tryHeartbeat_decodes [OF p(1) len(1)] len(2) by (simp add: b c)
  have "dispatch f = Inr (Some (HEARTBEAT 2 3 0x80 True 0x01020304 4))"
    using dispatch_heartbeat [OF t] by (simp add: armed_def)
  with f m show ?thesis by blast
qed

text \<open>Claim C2 at a concrete input: a valid 12-byte frame with message id 0 and an empty
  payload is accepted by the frame decoder, and decoding it panics with an index out of
  range.\<close>

theorem empty_heartbeat_payload_panics:
  "\<exists>f. parseFrame (slice_of [0xFD, 0, 0, 0, 0, 1, 1, 0, 0, 0, 0x12, 0x34]) 12 = Inr (Some f)
     \<and> MsgID f = 0 \<and> Len f = 0
     \<and> tryHeartbeat f = Inl IndexOutOfRange \<and> dispatch f = Inl IndexOutOfRange"
proof -
  let ?d = "[0xFD, 0, 0, 0, 0, 1, 1, 0, 0, 0, 0x12, 0x34] :: byte list"
  have w: "wf_slice (slice_of ?d)" by simp
  have l: "12 \<le> int (slen (slice_of ?d))" by simp
  obtain f where f: "parseFrame (slice_of ?d) 12 = Inr (Some f)"
    using parseFrame_accepts [OF w l] by simp
  note d = parseFrame_SomeD [OF w l f]
  have m: "MsgID f = 0" "Len f = 0"
    using d by simp_all
  note p = parseFrame_payload [OF w l f]
  have len: "slen (Payload f) < 8"
    using p(2) m by linarith
  have t: "tryHeartbeat f = Inl IndexOutOfRange"
    using tryHeartbeat_panics [OF p(1) len m(1)] .
  with f m dispatch_panics [OF t] show ?thesis by blast
qed

section \<open>The read loop\<close>

lemma ReadFromUDP_ok:
  assumes "wf_slice buf" "length d \<le> slen buf" "ReadFromUDP buf d = (buf', n)"
  shows "wf_slice buf'" and "slen buf' = slen buf" and "n = int (length d)"
    and "bytes_of buf' = d @ drop (length d) (bytes_of buf)"
proof -
  have t: "take (slen buf) d = d"
    using assms(2) by simp
  have b: "buf' = buf\<lparr>sarr := take (soff buf) (sarr buf) @ d
                          @ drop (soff buf + length d) (sarr buf)\<rparr>"
    and n: "n = int (length d)"
    using assms(3) by (simp_all add: ReadFromUDP_def Let_def t)
  have s: "soff buf + length d \<le> length (sarr buf)"
    using assms(1,2) by (simp add: wf_slice_def)
  show "wf_slice buf'"
    using assms(1) s by (simp add: b wf_slice_def)
  show "slen buf' = slen buf"
    by (simp add: b)
  show "n = int (length d)" by (rule n)
  have "take (slen buf) (d @ drop (soff buf + length d) (sarr buf))
      = d @ drop (length d) (take (slen buf) (drop (soff buf) (sarr buf)))"
    using assms(2) by (simp add: drop_take add.commute)
  then show "bytes_of buf' = d @ drop (length d) (bytes_of buf)"
    using s by (simp add: b bytes_of_def)
qed

text \<open>The loop returns only in an iteration whose receive failed and in which the
  cancellation was observed; a failed receive without cancellation continues.\<close>

lemma iteration_Return_iff:
  "iteration buf ev = Return \<longleftrightarrow> (fst ev = Timeout \<or> fst ev = OtherError) \<and> snd ev"
  by (cases ev, cases "fst ev")
     (auto simp: iteration_def Let_def split: prod.splits sum.splits option.splits)

lemma iteration_error_continues:
  "r = Timeout \<or> r = OtherError \<Longrightarrow> iteration buf (r, False) = Continue buf None"
  by (auto simp: iteration_def)

text \<open>After a successful receive the iteration continues unless the decoding panics, and
  with a well-formed buffer it panics exactly on the frames with message id 0 and a
  payload shorter than 8 bytes.\<close>

lemma dispatch_panics_iff:
  assumes "wf_slice (Payload f)"
  shows "(\<exists>e. dispatch f = Inl e) \<longleftrightarrow> MsgID f = 0 \<and> slen (Payload f) < 8"
proof (cases "MsgID f = 0")
  case True
  show ?thesis
  proof (cases "slen (Payload f) < 8")
    case True
    with \<open>MsgID f = 0\<close> dispatch_short_heartbeat_panics [OF assms] show ?thesis by simp
  next
    case False
    then have "8 \<le> slen (Payload f)" by simp
    from tryHeartbeat_decodes [OF assms this] \<open>MsgID f = 0\<close> False show ?thesis
      by (simp add: dispatch_def)
  qed
next
  case False
  show ?thesis
  proof (cases "slen (Payload f) = 9")
    case True
    with dispatch_nine_bytes_is_heartbeat [OF assms] False show ?thesis by auto
  next
    case n9: False
    have t: "tryHeartbeat f = Inr None"
      using False n9 by (rule tryHeartbeat_rejects)
    show ?thesis
    proof (cases "MsgID f = 33 \<and> 28 \<le> slen (Payload f)")
      case True
      with tryGlobalPosition_decodes [OF assms] t False show ?thesis
        by (simp add: dispatch_def)
    next
      case False
      then have "tryGlobalPosition f = Inr None"
        by (intro tryGlobalPosition_rejects) auto
      with t \<open>MsgID f \<noteq> 0\<close> show ?thesis by (simp add: dispatch_def)
    qed
  qed
qed

lemma iteration_received:
  assumes "wf_slice buf" "length d \<le> slen buf"
  shows "(\<exists>buf' out. iteration buf (Received d, cancelled) = Continue buf' out)
       \<or> (\<exists>f. parseFrame (fst (ReadFromUDP buf d)) (int (length d)) = Inr (Some f)
              \<and> MsgID f = 0 \<and> Len f < 8
              \<and> iteration buf (Received d, cancelled) = Crash IndexOutOfRange)"
proof -
  obtain buf' n where r: "ReadFromUDP buf d = (buf', n)"
    by (cases "ReadFromUDP buf d")
  note u = ReadFromUDP_ok [OF assms r]
  have n: "n \<le> int (slen buf')"
    using u(2,3) assms(2) by simp
  from parseFrame_total [OF u(1) n]
  consider "parseFrame buf' n = Inr None" | f where "parseFrame buf' n = Inr (Some f)"
    by blast
  then show ?thesis
  proof cases
    case 1
    then show ?thesis by (simp add: iteration_def r)
  next
    case 2
    note p = parseFrame_payload [OF u(1) n 2]
    show ?thesis
    proof (cases "MsgID f = 0 \<and> slen (Payload f) < 8")
      case True
      then have "dispatch f = Inl IndexOutOfRange"
        using dispatch_short_heartbeat_panics [OF p(1)] by simp
      moreover have "Len f < 8" using True p(2) by linarith
      ultimately show ?thesis
        using 2 True by (simp add: iteration_def r u(3))
    next
      case False
      then have "\<not> (\<exists>e. dispatch f = Inl e)"
        using dispatch_panics_iff [OF p(1)] by simp
      then obtain out where "dispatch f = Inr out"
        by (cases "dispatch f") auto
      then show ?thesis
        using 2 by (simp add: iteration_def r)
    qed
  qed
qed

text \<open>Claim C9 at a concrete input: with the 2048-byte buffer of \<open>main\<close>, receiving a
  12-byte frame with message id 0 and an empty payload ends the loop by a panic, without
  cancellation; the heartbeat received next is never printed.\<close>

theorem readLoop_crashes_on_empty_heartbeat:
  "iteration (make_bytes 2048)
     (Received [0xFD, 0, 0, 0, 0, 1, 1, 0, 0, 0, 0x12, 0x34], False) = Crash IndexOutOfRange
   \<and> readLoop (make_bytes 2048)
       [(Received [0xFD, 0, 0, 0, 0, 1, 1, 0, 0, 0, 0x12, 0x34], False),
        (Received example_datagram, False)] = ([], Crashed IndexOutOfRange)"
proof -
  let ?d = "[0xFD, 0, 0, 0, 0, 1, 1, 0, 0, 0, 0x12, 0x34] :: byte list"
  have w: "wf_slice (make_bytes 2048)" by (simp add: make_bytes_def)
  have l: "length ?d \<le> slen (make_bytes 2048)" by (simp add: make_bytes_def)
  obtain buf' n where r: "ReadFromUDP (make_bytes 2048) ?d = (buf', n)"
    by (cases "ReadFromUDP (make_bytes 2048) ?d")
  note u = ReadFromUDP_ok [OF w l r]
  have n: "n = 12" using u(3) by simp
  have nl: "12 \<le> int (slen buf')"
    using u(2) by (simp add: make_bytes_def)
  obtain f where f: "parseFrame buf' 12 = Inr (Some f)"
    using parseFrame_accepts [OF u(1) nl] by (simp add: u(4))
  note d = parseFrame_SomeD [OF u(1) nl f]
  have m: "MsgID f = 0" "Len f = 0"
    using d by (simp_all add: u(4))
  note p = parseFrame_payload [OF u(1) nl f]
  have "slen (Payload f) < 8" using p(2) m by linarith
  then have "dispatch f = Inl IndexOutOfRange"
    using dispatch_short_heartbeat_panics [OF p(1) m(1)] by simp
  then have i: "iteration (make_bytes 2048) (Received ?d, False) = Crash IndexOutOfRange"
    using f by (simp add: iteration_def r n)
  then show ?thesis by simp
qed

section \<open>float64 division\<close>

text \<open>Evaluation of \<open>bit_length\<close> on numerals, and its bounds.\<close>

lemma bit_length_0 [simp]: "bit_length 0 = 0"
  by (simp add: bit_length.simps)

lemma bit_length_Suc_0 [simp]: "bit_length (Suc 0) = Suc 0"
  by (subst bit_length.simps) simp

lemma bit_length_Bit0 [simp]: "bit_length (numeral (Num.Bit0 k)) = Suc (bit_length (numeral k))"
  by (subst bit_length.simps) simp

lemma bit_length_Bit1 [simp]: "bit_length (numeral (Num.Bit1 k)) = Suc (bit_length (numeral k))"
  by (subst bit_length.simps) simp

lemma bit_length_bounds:
  "0 < n \<Longrightarrow> 2 ^ (bit_length n - 1) \<le> n \<and> n < 2 ^ bit_length n"
proof (induction n rule: bit_length.induct)
  case (1 n)
  show ?case
  proof (cases "n div 2 = 0")
    case True
    with 1(2) have "n = 1" by (auto simp: div_eq_0_iff)
    then show ?thesis
      by simp
  next
    case False
    then have pos: "0 < n div 2" by simp
    from 1(1) [OF _ pos] 1(2)
    have ih: "2 ^ (bit_length (n div 2) - 1) \<le> n div 2" "n div 2 < 2 ^ bit_length (n div 2)"
      by simp_all
    have bl: "bit_length n = Suc (bit_length (n div 2))"
      using 1(2) by (subst bit_length.simps) simp
    have bpos: "0 < bit_length (n div 2)"
      using pos by (subst bit_length.simps) simp
    then have s: "bit_length (n div 2) = Suc (bit_length (n div 2) - 1)" by simp
    have "2 ^ bit_length (n div 2) = 2 * 2 ^ (bit_length (n div 2) - 1)"
      by (subst s) simp
    also have "\<dots> \<le> 2 * (n div 2)" using ih(1) by simp
    also have "\<dots> \<le> n" by simp
    finally have lo: "2 ^ (bit_length n - 1) \<le> n" by (simp add: bl)
    have "n < 2 * (n div 2) + 2" by linarith
    also have "\<dots> \<le> 2 * 2 ^ bit_length (n div 2)" using ih(2) by simp
    finally have hi: "n < 2 ^ bit_length n" by (simp add: bl)
    from lo hi show ?thesis by simp
  qed
qed

lemma roundHalfEven_error:
  assumes "0 < q"
  shows "2 * \<bar>roundHalfEven p q * q - p\<bar> \<le> q"
proof -
  define f where "f = p div q"
  define r where "r = p mod q"
  have p: "p = f * q + r" by (simp add: f_def r_def)
  have r: "0 \<le> r" "r < q" using assms by (simp_all add: r_def)
  have 1: "f * q - p = - r" using p by simp
  have 2: "(f + 1) * q - p = q - r" using p by (simp add: algebra_simps)
  show ?thesis
    unfolding roundHalfEven_def Let_def f_def [symmetric] r_def [symmetric]
    using r by (auto simp: 1 2)
qed

lemma pow2_pos: "0 < pow2 k"
  by (simp add: pow2_def)


lemma pow2_powi: "pow2 k = 2 powi k"
  by (simp add: pow2_def power_int_def power_inverse field_simps)

lemma pow2_add: "pow2 (j + k) = pow2 j * pow2 k"
  by (simp add: pow2_powi power_int_add)

lemma pow2_nat: "pow2 (int k) = 2 ^ k"
  by (simp add: pow2_def)

lemma pow2_nat_diff: "pow2 (int j - int k) = 2 ^ j / 2 ^ k"
  using pow2_add [of "int j - int k" "int k"] by (simp add: pow2_nat field_simps)

lemma scaled_quotient:
  "rat_of_int (A * 2 ^ nat k) / rat_of_int (b * 2 ^ nat (- k))
       = rat_of_int A / rat_of_int b * pow2 k"
proof (cases "0 \<le> k")
  case True
  then show ?thesis by (simp add: pow2_def)
next
  case False
  then show ?thesis by (simp add: pow2_def)
qed


lemma float64_exponent_le:
  assumes A: "0 < A" and b: "0 < b"
  defines "e0 \<equiv> int (bit_length (nat A)) - int (bit_length (nat b))"
  defines "e \<equiv> (if b * 2 ^ nat e0 \<le> A * 2 ^ nat (- e0) then e0 else e0 - 1)"
  shows "pow2 e \<le> rat_of_int A / rat_of_int b"
proof (cases "b * 2 ^ nat e0 \<le> A * 2 ^ nat (- e0)")
  case True
  then have "rat_of_int (b * 2 ^ nat e0) \<le> rat_of_int (A * 2 ^ nat (- e0))"
    by (simp only: of_int_le_iff)
  then have le: "rat_of_int b * 2 ^ nat e0 \<le> rat_of_int A * 2 ^ nat (- e0)"
    by simp
  have "pow2 e0 \<le> rat_of_int A / rat_of_int b"
  proof (cases "0 \<le> e0")
    case True
    then show ?thesis using le b by (simp add: pow2_def field_simps)
  next
    case False
    then show ?thesis using le b by (simp add: pow2_def field_simps)
  qed
  with True show ?thesis by (simp add: e_def)
next
  case False
  define ba where "ba = bit_length (nat A)"
  define bb where "bb = bit_length (nat b)"
  have nA: "0 < nat A" and nb: "0 < nat b" using A b by simp_all
  from bit_length_bounds [OF nA] have lo: "2 ^ (ba - 1) \<le> nat A"
    by (simp add: ba_def)
  from bit_length_bounds [OF nb] have hi: "nat b < 2 ^ bb"
    by (simp add: bb_def)
  have ba1: "1 \<le> ba"
    unfolding ba_def using nA by (subst bit_length.simps) simp
  have lo': "(2::rat) ^ (ba - 1) \<le> rat_of_int A"
  proof -
    have "int (2 ^ (ba - 1)) \<le> int (nat A)" using lo by (simp only: of_nat_le_iff)
    then have "(2::int) ^ (ba - 1) \<le> A" using A by simp
    then have "rat_of_int (2 ^ (ba - 1)) \<le> rat_of_int A" by (simp only: of_int_le_iff)
    then show ?thesis by simp
  qed
  have hi': "rat_of_int b \<le> 2 ^ bb"
  proof -
    have "int (nat b) < int (2 ^ bb)" using hi by (simp only: of_nat_less_iff)
    then have "b < 2 ^ bb" using b by simp
    then have "rat_of_int b < rat_of_int (2 ^ bb)" by (simp only: of_int_less_iff)
    then show ?thesis by simp
  qed
  have "e = int (ba - 1) - int bb"
    using False ba1 by (simp add: e_def e0_def ba_def bb_def)
  then have "pow2 e = 2 ^ (ba - 1) / 2 ^ bb"
    by (simp add: pow2_nat_diff)
  also have "\<dots> \<le> rat_of_int A / rat_of_int b"
    using lo' hi' b A by (intro frac_le) simp_all
  finally show ?thesis .
qed

text \<open>The quotient is within half a unit in the last place of the exact value.\<close>

lemma float64_div_error:
  assumes b: "0 < b"
  shows "\<bar>float64_div a b - rat_of_int a / rat_of_int b\<bar>
           \<le> \<bar>rat_of_int a / rat_of_int b\<bar> / 2 ^ 53"
proof (cases "a = 0")
  case True
  then show ?thesis by (simp add: float64_div_def)
next
  case False
  define A where "A = \<bar>a\<bar>"
  define e0 where "e0 = int (bit_length (nat A)) - int (bit_length (nat b))"
  define e where "e = (if b * 2 ^ nat e0 \<le> A * 2 ^ nat (- e0) then e0 else e0 - 1)"
  define P where "P = A * 2 ^ nat (52 - e)"
  define Q where "Q = b * 2 ^ nat (- (52 - e))"
  define m where "m = roundHalfEven P Q"
  define x where "x = rat_of_int A / rat_of_int b"
  have A: "0 < A" using False by (simp add: A_def)
  have Q: "0 < Q" using b by (simp add: Q_def)
  have x: "0 < x" using A b by (simp add: x_def)
  have res: "float64_div a b = rat_of_int (sgn a) * (rat_of_int m * pow2 (e - 52))"
    using False
    by (simp add: float64_div_def Let_def m_def P_def Q_def e_def e0_def A_def)
  have quot: "rat_of_int a / rat_of_int b = rat_of_int (sgn a) * x"
  proof -
    have "a = sgn a * A" by (simp add: A_def mult_sgn_abs)
    then have "rat_of_int a = rat_of_int (sgn a) * rat_of_int A"
      by (metis of_int_mult)
    then show ?thesis by (simp add: x_def)
  qed
  have sg: "\<bar>rat_of_int (sgn a)\<bar> = 1"
    using False by (simp add: sgn_if)
  have ex: "pow2 e \<le> x"
    unfolding x_def e_def e0_def by (rule float64_exponent_le [OF A b])
  have PQ: "rat_of_int P / rat_of_int Q = x * pow2 (52 - e)"
    unfolding P_def Q_def x_def by (rule scaled_quotient)
  have "2 * \<bar>m * Q - P\<bar> \<le> Q"
    unfolding m_def using Q by (rule roundHalfEven_error)
  then have "rat_of_int (2 * \<bar>m * Q - P\<bar>) \<le> rat_of_int Q"
    by (simp only: of_int_le_iff)
  then have "2 * \<bar>rat_of_int m * rat_of_int Q - rat_of_int P\<bar> \<le> rat_of_int Q"
    by simp
  then have two: "\<bar>rat_of_int m * rat_of_int Q - rat_of_int P\<bar> / rat_of_int Q \<le> 1 / 2"
    using Q by (simp add: field_simps)
  have "rat_of_int m - rat_of_int P / rat_of_int Q
      = (rat_of_int m * rat_of_int Q - rat_of_int P) / rat_of_int Q"
    using Q by (simp add: diff_divide_distrib)
  then have "\<bar>rat_of_int m - rat_of_int P / rat_of_int Q\<bar>
      = \<bar>rat_of_int m * rat_of_int Q - rat_of_int P\<bar> / \<bar>rat_of_int Q\<bar>"
    by (simp only: abs_divide)
  also have "\<bar>rat_of_int Q\<bar> = rat_of_int Q"
    using Q by simp
  finally have half: "\<bar>rat_of_int m - x * pow2 (52 - e)\<bar> \<le> 1 / 2"
    using two by (simp only: PQ)
  have one: "pow2 (52 - e) * pow2 (e - 52) = 1"
    using pow2_add [of "52 - e" "e - 52"] by (simp add: pow2_def)
  have "\<bar>rat_of_int m * pow2 (e - 52) - x\<bar>
      = \<bar>(rat_of_int m - x * pow2 (52 - e)) * pow2 (e - 52)\<bar>"
    using one by (simp add: algebra_simps)
  also have "\<dots> = \<bar>rat_of_int m - x * pow2 (52 - e)\<bar> * pow2 (e - 52)"
    using pow2_pos [of "e - 52"] by (simp add: abs_mult)
  also have "\<dots> \<le> 1 / 2 * pow2 (e - 52)"
    using half pow2_pos [of "e - 52"] by (intro mult_right_mono) simp_all
  also have "\<dots> = pow2 e / 2 ^ 53"
  proof -
    have "pow2 (- 52) = 1 / 2 ^ 52" by (simp add: pow2_def)
    moreover have "pow2 (e - 52) = pow2 e * pow2 (- 52)"
      using pow2_add [of e "- 52"] by simp
    ultimately show ?thesis by simp
  qed
  also have "\<dots> \<le> x / 2 ^ 53"
    using ex by (simp add: divide_right_mono)
  finally have main: "\<bar>rat_of_int m * pow2 (e - 52) - x\<bar> \<le> x / 2 ^ 53" .
  have "\<bar>float64_div a b - rat_of_int a / rat_of_int b\<bar>
      = \<bar>rat_of_int (sgn a) * (rat_of_int m * pow2 (e - 52) - x)\<bar>"
    by (simp add: res quot algebra_simps)
  also have "\<dots> = \<bar>rat_of_int m * pow2 (e - 52) - x\<bar>"
    by (simp only: abs_mult sg mult_1)
  also have "\<dots> \<le> x / 2 ^ 53" by (rule main)
  also have "\<dots> = \<bar>rat_of_int a / rat_of_int b\<bar> / 2 ^ 53"
  proof -
    have "\<bar>rat_of_int a / rat_of_int b\<bar> = \<bar>rat_of_int (sgn a)\<bar> * \<bar>x\<bar>"
      by (simp only: quot abs_mult)
    also have "\<dots> = x" using x by (simp only: sg mult_1 abs_of_pos)
    finally show ?thesis by simp
  qed
  finally show ?thesis .
qed


lemma int_div_ge:
  fixes p q k :: int
  assumes "0 < q" "k * q \<le> p"
  shows "k \<le> p div q"
  using zdiv_mono1 [OF assms(2) assms(1)] assms(1) by simp

lemma int_div_lt:
  fixes p q k :: int
  assumes "0 < q" "p < k * q"
  shows "p div q < k"
proof -
  have "p div q * q = p - p mod q"
    by (simp add: minus_mod_eq_div_mult)
  moreover have "0 \<le> p mod q"
    using assms(1) by simp
  ultimately have "p div q * q < k * q"
    using assms(2) by linarith
  then show ?thesis
    using assms(1) by (simp add: mult_less_cancel_right)
qed

lemma roundHalfEven_ge:
  assumes "0 < q" "k * q \<le> p"
  shows "k \<le> roundHalfEven p q"
  using int_div_ge [OF assms] by (simp add: roundHalfEven_def Let_def)

lemma roundHalfEven_le:
  assumes "0 < q" "p < k * q"
  shows "roundHalfEven p q \<le> k"
  using int_div_lt [OF assms] by (simp add: roundHalfEven_def Let_def)

lemma float64_exponent_gt:
  assumes A: "0 < A" and b: "0 < b"
  defines "e0 \<equiv> int (bit_length (nat A)) - int (bit_length (nat b))"
  defines "e \<equiv> (if b * 2 ^ nat e0 \<le> A * 2 ^ nat (- e0) then e0 else e0 - 1)"
  shows "rat_of_int A / rat_of_int b < pow2 (e + 1)"
proof (cases "b * 2 ^ nat e0 \<le> A * 2 ^ nat (- e0)")
  case False
  then have "rat_of_int (A * 2 ^ nat (- e0)) < rat_of_int (b * 2 ^ nat e0)"
    by (simp only: of_int_less_iff not_le)
  then have lt: "rat_of_int A * 2 ^ nat (- e0) < rat_of_int b * 2 ^ nat e0"
    by simp
  have "rat_of_int A / rat_of_int b < pow2 e0"
  proof (cases "0 \<le> e0")
    case True
    then show ?thesis using lt b by (simp add: pow2_def field_simps)
  next
    case False
    then show ?thesis using lt b by (simp add: pow2_def field_simps)
  qed
  with False show ?thesis by (simp add: e_def)
next
  case True
  define ba where "ba = bit_length (nat A)"
  define bb where "bb = bit_length (nat b)"
  have nA: "0 < nat A" and nb: "0 < nat b" using A b by simp_all
  from bit_length_bounds [OF nA] have hi: "nat A < 2 ^ ba"
    by (simp add: ba_def)
  from bit_length_bounds [OF nb] have lo: "2 ^ (bb - 1) \<le> nat b"
    by (simp add: bb_def)
  have bb1: "1 \<le> bb"
    unfolding bb_def using nb by (subst bit_length.simps) simp
  have hi': "rat_of_int A < 2 ^ ba"
  proof -
    have "int (nat A) < int (2 ^ ba)" using hi by (simp only: of_nat_less_iff)
    then have "A < 2 ^ ba" using A by simp
    then have "rat_of_int A < rat_of_int (2 ^ ba)" by (simp only: of_int_less_iff)
    then show ?thesis by simp
  qed
  have lo': "(2::rat) ^ (bb - 1) \<le> rat_of_int b"
  proof -
    have "int (2 ^ (bb - 1)) \<le> int (nat b)" using lo by (simp only: of_nat_le_iff)
    then have "(2::int) ^ (bb - 1) \<le> b" using b by simp
    then have "rat_of_int (2 ^ (bb - 1)) \<le> rat_of_int b" by (simp only: of_int_le_iff)
    then show ?thesis by simp
  qed
  have "e + 1 = int ba - int (bb - 1)"
    using True bb1 by (simp add: e_def e0_def ba_def bb_def)
  then have p: "pow2 (e + 1) = 2 ^ ba / 2 ^ (bb - 1)"
    by (simp only: pow2_nat_diff)
  have "rat_of_int A / rat_of_int b < 2 ^ ba / 2 ^ (bb - 1)"
    using hi' lo' b A by (intro frac_less) simp_all
  then show ?thesis by (simp only: p)
qed


text \<open>For the operands of the decoder (an \<open>int32\<close> divided by \<open>1000\<close> or \<open>1e7\<close>) the
  quotient has a 53-bit significand and an exponent in the normal range of binary64.\<close>

lemma pow2_mono: "j \<le> k \<Longrightarrow> pow2 j \<le> pow2 k"
  by (simp add: pow2_powi power_int_increasing)

lemma float64_div_normal:
  assumes a: "a \<noteq> 0" "\<bar>a\<bar> \<le> 2 ^ 31" and b: "0 < b" "b \<le> 10000000"
  shows "\<exists>m e. float64_div a b = rat_of_int (sgn a * m) * pow2 (e - 52)
           \<and> 2 ^ 52 \<le> m \<and> m \<le> 2 ^ 53 \<and> - 24 \<le> e \<and> e \<le> 31"
proof -
  define A where "A = \<bar>a\<bar>"
  define e0 where "e0 = int (bit_length (nat A)) - int (bit_length (nat b))"
  define e where "e = (if b * 2 ^ nat e0 \<le> A * 2 ^ nat (- e0) then e0 else e0 - 1)"
  define P where "P = A * 2 ^ nat (52 - e)"
  define Q where "Q = b * 2 ^ nat (- (52 - e))"
  define m where "m = roundHalfEven P Q"
  define x where "x = rat_of_int A / rat_of_int b"
  have A: "0 < A" using a(1) by (simp add: A_def)
  have Q: "0 < Q" using b(1) by (simp add: Q_def)
  have res: "float64_div a b = rat_of_int (sgn a * m) * pow2 (e - 52)"
    using a(1)
    by (simp add: float64_div_def Let_def m_def P_def Q_def e_def e0_def A_def)
  have lo: "pow2 e \<le> x"
    unfolding x_def e_def e0_def by (rule float64_exponent_le [OF A b(1)])
  have hi: "x < pow2 (e + 1)"
    unfolding x_def e_def e0_def by (rule float64_exponent_gt [OF A b(1)])
  have PQ: "rat_of_int P / rat_of_int Q = x * pow2 (52 - e)"
    unfolding P_def Q_def x_def by (rule scaled_quotient)
  have p52: "pow2 e * pow2 (52 - e) = 2 ^ 52"
    using pow2_add [of e "52 - e"] by (simp add: pow2_def)
  have p53: "pow2 (e + 1) * pow2 (52 - e) = 2 ^ 53"
    using pow2_add [of "e + 1" "52 - e"] by (simp add: pow2_def)
  have "2 ^ 52 \<le> x * pow2 (52 - e)"
    using mult_right_mono [OF lo, of "pow2 (52 - e)"] pow2_pos [of "52 - e"]
    by (simp add: p52)
  then have "2 ^ 52 \<le> rat_of_int P / rat_of_int Q"
    by (simp only: PQ)
  then have "rat_of_int (2 ^ 52 * Q) \<le> rat_of_int P"
    using Q by (simp add: field_simps)
  then have "2 ^ 52 * Q \<le> P"
    by (simp only: of_int_le_iff)
  then have m_lo: "2 ^ 52 \<le> m"
    unfolding m_def using Q by (intro roundHalfEven_ge)
  have "x * pow2 (52 - e) < 2 ^ 53"
    using mult_strict_right_mono [OF hi, of "pow2 (52 - e)"] pow2_pos [of "52 - e"]
    by (simp add: p53)
  then have "rat_of_int P / rat_of_int Q < 2 ^ 53"
    by (simp only: PQ)
  then have "rat_of_int P < rat_of_int (2 ^ 53 * Q)"
    using Q by (simp add: field_simps)
  then have "P < 2 ^ 53 * Q"
    by (simp only: of_int_less_iff)
  then have m_hi: "m \<le> 2 ^ 53"
    unfolding m_def using Q by (intro roundHalfEven_le)
  have x_hi: "x \<le> 2 ^ 31"
  proof -
    have "rat_of_int A \<le> rat_of_int (2 ^ 31)"
      using a(2) unfolding A_def by (simp only: of_int_le_iff)
    moreover have "1 \<le> rat_of_int b" using b(1) by simp
    ultimately have "rat_of_int A / rat_of_int b \<le> rat_of_int (2 ^ 31) / 1"
      using A by (intro frac_le) simp_all
    then show ?thesis by (simp add: x_def)
  qed
  have x_lo: "1 / 10000000 \<le> x"
  proof -
    have "1 \<le> rat_of_int A" using A by simp
    moreover have "rat_of_int b \<le> 10000000"
      using b(2) by (metis of_int_le_iff of_int_numeral)
    ultimately have "1 / 10000000 \<le> rat_of_int A / rat_of_int b"
      using b(1) by (intro frac_le) simp_all
    then show ?thesis by (simp add: x_def)
  qed
  have e_hi: "e \<le> 31"
  proof (rule ccontr)
    assume "\<not> e \<le> 31"
    then have "pow2 32 \<le> pow2 e" by (intro pow2_mono) simp
    with lo x_hi show False by (simp add: pow2_def)
  qed
  have e_lo: "- 24 \<le> e"
  proof (rule ccontr)
    assume "\<not> - 24 \<le> e"
    then have "pow2 (e + 1) \<le> pow2 (- 24)" by (intro pow2_mono) simp
    with hi x_lo show False by (simp add: pow2_def)
  qed
  from res m_lo m_hi e_lo e_hi show ?thesis by blast
qed

text \<open>Claim C6. For a validated frame with message id 33 and payload length at least 28
  the position decode succeeds; latitude, longitude and altitude are the \<open>float64\<close>
  quotients of the signed little-endian 32-bit integers at payload bytes 4 to 7, 8 to 11
  and 12 to 15 by \<open>1e7\<close>, \<open>1e7\<close> and \<open>1000\<close>, each within a relative error of \<open>2^-53\<close> of the
  exact quotient; payload bytes 0 to 3 do not occur in the result. The integer 473977420
  gives the \<open>float64\<close> nearest to 47.3977420, and the integer -5000 gives exactly -5.\<close>

theorem global_position_decode:
  assumes "wf_slice buf" "n \<le> int (slen buf)" "parseFrame buf n = Inr (Some f)"
    and "MsgID f = 33" "28 \<le> Len f"
  shows "\<exists>lat lon alt. tryGlobalPosition f = Inr (Some (lat, lon, alt))
    \<and> dispatch f = Inr (Some (GLOBAL_POSITION_INT lat lon alt))
    \<and> lat = float64_div (sint (le32 (bytes_of (Payload f)) 4)) 10000000
    \<and> lon = float64_div (sint (le32 (bytes_of (Payload f)) 8)) 10000000
    \<and> alt = float64_div (sint (le32 (bytes_of (Payload f)) 12)) 1000
    \<and> \<bar>lat - rat_of_int (sint (le32 (bytes_of (Payload f)) 4)) / 10000000\<bar>
        \<le> \<bar>rat_of_int (sint (le32 (bytes_of (Payload f)) 4)) / 10000000\<bar> / 2 ^ 53
    \<and> \<bar>lon - rat_of_int (sint (le32 (bytes_of (Payload f)) 8)) / 10000000\<bar>
        \<le> \<bar>rat_of_int (sint (le32 (bytes_of (Payload f)) 8)) / 10000000\<bar> / 2 ^ 53
    \<and> \<bar>alt - rat_of_int (sint (le32 (bytes_of (Payload f)) 12)) / 1000\<bar>
        \<le> \<bar>rat_of_int (sint (le32 (bytes_of (Payload f)) 12)) / 1000\<bar> / 2 ^ 53
    \<and> float64_div 473977420 10000000 = 6670639162793841 / 140737488355328
    \<and> \<bar>float64_div 473977420 10000000 - 473977420 / 10000000\<bar> < 1 / 10 ^ 15
    \<and> float64_div (- 5000) 1000 = - 5"
proof -
  note p = parseFrame_payload [OF assms(1-3)]
  have len: "28 \<le> slen (Payload f)"
    using p(2) assms(5) by linarith
  let ?lat = "float64_div (sint (le32 (bytes_of (Payload f)) 4)) 10000000"
  let ?lon = "float64_div (sint (le32 (bytes_of (Payload f)) 8)) 10000000"
  let ?alt = "float64_div (sint (le32 (bytes_of (Payload f)) 12)) 1000"
  have g: "tryGlobalPosition f = Inr (Some (?lat, ?lon, ?alt))"
    using p(1) len assms(4) by (rule tryGlobalPosition_decodes)
  have h: "tryHeartbeat f = Inr None"
    using assms(4) len by (intro tryHeartbeat_rejects) simp_all
  have d: "dispatch f = Inr (Some (GLOBAL_POSITION_INT ?lat ?lon ?alt))"
    using h g by (rule dispatch_position)
  have e1: "\<bar>?lat - rat_of_int (sint (le32 (bytes_of (Payload f)) 4)) / 10000000\<bar>
        \<le> \<bar>rat_of_int (sint (le32 (bytes_of (Payload f)) 4)) / 10000000\<bar> / 2 ^ 53"
    using float64_div_error [of 10000000 "sint (le32 (bytes_of (Payload f)) 4)"] by simp
  have e2: "\<bar>?lon - rat_of_int (sint (le32 (bytes_of (Payload f)) 8)) / 10000000\<bar>
        \<le> \<bar>rat_of_int (sint (le32 (bytes_of (Payload f)) 8)) / 10000000\<bar> / 2 ^ 53"
    using float64_div_error [of 10000000 "sint (le32 (bytes_of (Payload f)) 8)"] by simp
  have e3: "\<bar>?alt - rat_of_int (sint (le32 (bytes_of (Payload f)) 12)) / 1000\<bar>
        \<le> \<bar>rat_of_int (sint (le32 (bytes_of (Payload f)) 12)) / 1000\<bar> / 2 ^ 53"
    using float64_div_error [of 1000 "sint (le32 (bytes_of (Payload f)) 12)"] by simp
  have x1: "float64_div 473977420 10000000 = 6670639162793841 / 140737488355328"
    by (simp add: float64_div_def pow2_def roundHalfEven_def Let_def)
  have x2: "\<bar>float64_div 473977420 10000000 - 473977420 / 10000000\<bar> < 1 / 10 ^ 15"
    by (simp add: x1)
  have x3: "float64_div (- 5000) 1000 = - 5"
    by (simp add: float64_div_def pow2_def roundHalfEven_def Let_def)
  from g d e1 e2 e3 x1 x2 x3 show ?thesis by blast
qed

theorem global_position_decode_witness:
  "wf_slice (slice_of example_position_datagram)
   \<and> 40 \<le> int (slen (slice_of example_position_datagram))
   \<and> (\<exists>f. parseFrame (slice_of example_position_datagram) 40 = Inr (Some f)
        \<and> MsgID f = 33 \<and> 28 \<le> Len f
        \<and> sint (le32 (bytes_of (Payload f)) 4) = 473977420
        \<and> sint (le32 (bytes_of (Payload f)) 12) = - 5000
        \<and> dispatch f = Inr (Some (GLOBAL_POSITION_INT
              (6670639162793841 / 140737488355328) (2405344413480911 / 281474976710656) (- 5))))"
proof -
  have w: "wf_slice (slice_of example_position_datagram)" by simp
  have l: "40 \<le> int (slen (slice_of example_position_datagram))"
    by (simp add: example_position_datagram_def)
  obtain f where f: "parseFrame (slice_of example_position_datagram) 40 = Inr (Some f)"
    using parseFrame_accepts [OF w l] by (simp add: example_position_datagram_def)
  note d = parseFrame_SomeD [OF w l f]
  have m: "MsgID f = 33" and len: "Len f = 28"
    using d by (simp_all add: example_position_datagram_def)
  then have 28: "28 \<le> Len f" by simp
  have b: "bytes_of (Payload f) =
      [64, 226, 1, 0, 76, 82, 64, 28, 152, 240, 23, 5, 120, 236, 255, 255,
       232, 3, 0, 0, 0, 0, 0, 0, 0, 0, 0, 0]"
    using parseFrame_payload(3) [OF w l f] len
    by (simp add: datagram_def example_position_datagram_def)
  have i1: "sint (le32 (bytes_of (Payload f)) 4) = 473977420"
    and i2: "sint (le32 (bytes_of (Payload f)) 8) = 85455000"
    and i3: "sint (le32 (bytes_of (Payload f)) 12) = - 5000"
    by (simp_all add: b le32_def)
  have v: "float64_div 85455000 10000000 = 2405344413480911 / 281474976710656"
    by (simp add: float64_div_def pow2_def roundHalfEven_def Let_def)
  from global_position_decode [OF w l f m 28] obtain lat lon alt where
    r: "dispatch f = Inr (Some (GLOBAL_POSITION_INT lat lon alt))"
      "lat = float64_div (sint (le32 (bytes_of (Payload f)) 4)) 10000000"
      "lon = float64_div (sint (le32 (bytes_of (Payload f)) 8)) 10000000"
      "alt = float64_div (sint (le32 (bytes_of (Payload f)) 12)) 1000"
      "float64_div 473977420 10000000 = 6670639162793841 / 140737488355328"
      "float64_div (- 5000) 1000 = - 5"
    by blast
  show ?thesis
    using w l f m 28 i1 i3 r by (simp add: i2 v)
qed

section \<open>The earlier heartbeat-only decoder\<close>

text \<open>\<open>parseMAVLinkPacket\<close> does have error values, but not those of the frame decoder: a
  datagram shorter than 10 bytes and one with a bad marker share one error, and the
  length check against 21 bytes comes after the message id check.\<close>

lemma parseMAVLinkPacket_NotValidV2:
  assumes "wf_slice buf" "n \<le> int (slen buf)"
  shows "parseMAVLinkPacket buf n = Inr (Inl NotValidV2) \<longleftrightarrow> n < 10 \<or> bytes_of buf ! 0 \<noteq> 0xFD"
proof (cases "n < 10")
  case True
  then show ?thesis by (simp add: parseMAVLinkPacket_def)
next
  case False
  then show ?thesis
    using assms by (simp add: parseMAVLinkPacket_def index_ok Let_def pbind_def split: sum.splits)
qed

lemma parseMAVLinkPacket_decodes:
  assumes "wf_slice buf" "n \<le> int (slen buf)" "21 \<le> n" "bytes_of buf ! 0 = 0xFD"
    and "bytes_of buf ! 1 = 9" "bytes_of buf ! 7 = 0" "bytes_of buf ! 8 = 0" "bytes_of buf ! 9 = 0"
  shows "parseMAVLinkPacket buf n =
     Inr (Inr \<lparr>Type = bytes_of buf ! 14, Autopilot = bytes_of buf ! 15,
               BaseMode = bytes_of buf ! 16, CustomMode = le32 (bytes_of buf) 10,
               SystemStatus = bytes_of buf ! 17\<rparr>)"
proof -
  from reslice_ok [of buf 10 19] assms obtain p where
    p: "reslice buf 10 19 = Inr p" "wf_slice p" "slen p = 9"
       "bytes_of p = take 9 (drop 10 (bytes_of buf))"
    by auto
  have len: "21 \<le> length (bytes_of buf)"
    using assms(1-3) by (simp add: length_bytes_of)
  have rd: "\<And>k. pbind (reslice p 0 4) (\<lambda>q. pbind (LittleEndian_Uint32 q) k)
            = k (le32 (bytes_of p) 0)"
    using read32 [of p 0 4] p by simp
  have le: "le32 (bytes_of p) 0 = le32 (bytes_of buf) 10"
    using len by (simp add: le32_def p(4))
  have nth: "bytes_of p ! 4 = bytes_of buf ! 14" "bytes_of p ! 5 = bytes_of buf ! 15"
    "bytes_of p ! 6 = bytes_of buf ! 16" "bytes_of p ! 7 = bytes_of buf ! 17"
    using len by (simp_all add: p(4))
  show ?thesis
    using assms p(1-3)
    by (simp add: parseMAVLinkPacket_def index_ok Let_def rd le nth)
qed

end
